theory Spec2Isabelle
  imports Complex_Main "HOL-Library.Word"
begin

chapter \<open>The embedding\<close>

section \<open>Python errors\<close>

text \<open>
  The exceptions the modelled code can raise. \<open>DataShapeError\<close> and
  \<open>ConfigurationError\<close> are the two error classes of the pooling contract.
\<close>

datatype py_error =
    TypeError
  | ValueError
  | IndexError
  | RuntimeError
  | UnboundLocalError
  | DataShapeError
  | ConfigurationError

section \<open>VideoUtility.get_frames\<close>

text \<open>
  A decoded frame is an array of 8-bit pixels (height * width * channels); it is kept
  here as the flat list of its pixels. All frames of one decoded video have one shape, so
  numpy's subtraction of two frames is position by position, in 8-bit arithmetic.
\<close>

type_synonym frame = "8 word list"

definition np_subtract :: "frame \<Rightarrow> frame \<Rightarrow> frame" where
  "np_subtract a b = map2 (-) a b"

text \<open>\<^verbatim>\<open>str.split(sep)\<close> for a one-character separator: never an empty list.\<close>

fun split_on :: "char \<Rightarrow> string \<Rightarrow> string list" where
  "split_on c [] = [[]]"
| "split_on c (x # xs) =
     (if x = c then [] # split_on c xs
      else (case split_on c xs of
              [] \<Rightarrow> [[x]]
            | w # ws \<Rightarrow> (x # w) # ws))"

text \<open>
  The three ways \<^verbatim>\<open>skvideo.io.vreader\<close> is called. The decoder is outside the
  repository: it is the parameter \<open>vreader\<close>, giving the finite frame sequence the
  generator yields for a path and a call.
\<close>

datatype reader_call =
    Plain
  | Yuv420p nat nat
  | Yuv420pGrey nat nat

type_synonym vreader = "string \<Rightarrow> reader_call \<Rightarrow> frame list"

text \<open>
  What \<^verbatim>\<open>get_frames\<close> returns: the generator itself (\<open>None\<close> when no branch built
  one), or the array of consecutive differences.
\<close>

datatype frames_result =
    FramesGen "frame list option"
  | FramesDiff "frame list"

text \<open>
  The loop \<^verbatim>\<open>for i, frame in enumerate(frames_gen)\<close>: \<open>i\<close> is the running index,
  \<open>last_frame\<close> the frame of the previous round (unread while \<open>i = 0\<close>),
  \<open>frames_diff\<close> the list appended to.
\<close>

fun diff_loop :: "nat \<Rightarrow> frame \<Rightarrow> frame list \<Rightarrow> frame list \<Rightarrow> frame list" where
  "diff_loop i last_frame frames_diff [] = frames_diff"
| "diff_loop i last_frame frames_diff (frame # rest) =
     diff_loop (Suc i) frame
       (if i > 0 then frames_diff @ [np_subtract frame last_frame] else frames_diff) rest"

definition select_frames_gen ::
    "vreader \<Rightarrow> string \<Rightarrow> string \<Rightarrow> nat \<Rightarrow> nat \<Rightarrow> frame list option" where
  "select_frames_gen vr vid_path frame_color_mode height width =
     (let extension = last (split_on CHR ''.'' vid_path) in
      if extension = ''mp4'' then Some (vr vid_path Plain)
      else if frame_color_mode = ''rgb'' then Some (vr vid_path (Yuv420p height width))
      else if frame_color_mode = ''gray'' then Some (vr vid_path (Yuv420pGrey height width))
      else None)"

definition get_frames ::
    "vreader \<Rightarrow> string \<Rightarrow> string \<Rightarrow> nat \<Rightarrow> nat \<Rightarrow> bool \<Rightarrow> py_error + frames_result" where
  "get_frames vr vid_path frame_color_mode height width frame_diff =
     (let frames_gen = select_frames_gen vr vid_path frame_color_mode height width in
      if frame_diff then
        (case frames_gen of
           None \<Rightarrow> Inl TypeError
         | Some frames \<Rightarrow> Inr (FramesDiff (diff_loop 0 [] [] frames)))
      else Inr (FramesGen frames_gen))"

section \<open>SFVQA.gram_matrix\<close>

text \<open>
  A torch tensor: its shape and its elements in row-major (contiguous) order. The
  elements are kept in any commutative semiring; the properties below use nothing else of the
  scalar arithmetic.
\<close>

record 'a tensor =
  shape :: "nat list"
  data :: "'a list"

definition wf_tensor :: "'a tensor \<Rightarrow> bool" where
  "wf_tensor t \<longleftrightarrow> length (data t) = prod_list (shape t)"

text \<open>The row-major elements of an \<open>r\<close> by \<open>c\<close> array whose entry \<open>(i, j)\<close> is \<open>f i j\<close>.\<close>

definition row_major :: "nat \<Rightarrow> nat \<Rightarrow> (nat \<Rightarrow> nat \<Rightarrow> 'a) \<Rightarrow> 'a list" where
  "row_major r c f = concat (map (\<lambda>i. map (f i) [0..<c]) [0..<r])"

text \<open>\<^verbatim>\<open>tensor.view(shape)\<close>: same elements, new shape; the element counts must agree.\<close>

definition view :: "'a tensor \<Rightarrow> nat list \<Rightarrow> py_error + 'a tensor" where
  "view t new_shape =
     (if prod_list new_shape = prod_list (shape t) then Inr (t\<lparr>shape := new_shape\<rparr>)
      else Inl RuntimeError)"

text \<open>\<^verbatim>\<open>tensor.t()\<close>: the transpose of a 2-D tensor.\<close>

definition transpose_t :: "'a tensor \<Rightarrow> py_error + 'a tensor" where
  "transpose_t m =
     (case shape m of
        [r, c] \<Rightarrow> Inr \<lparr>shape = [c, r], data = row_major c r (\<lambda>j i. data m ! (i * c + j))\<rparr>
      | _ \<Rightarrow> Inl RuntimeError)"

text \<open>\<^verbatim>\<open>torch.mm(a, b)\<close>: the product of an \<open>n\<close> by \<open>k\<close> and a \<open>k\<close> by \<open>p\<close> matrix.\<close>

definition mm :: "('a::comm_semiring_0) tensor \<Rightarrow> 'a tensor \<Rightarrow> py_error + 'a tensor" where
  "mm a b =
     (case (shape a, shape b) of
        ([n, k], [k', p]) \<Rightarrow>
          if k = k' then
            Inr \<lparr>shape = [n, p],
                 data = row_major n p
                   (\<lambda>i j. sum_list (map (\<lambda>l. data a ! (i * k + l) * data b ! (l * p + j)) [0..<k]))\<rparr>
          else Inl RuntimeError
      | _ \<Rightarrow> Inl RuntimeError)"

text \<open>\<^verbatim>\<open>torch.flatten(t)\<close>: the 1-D tensor of all elements.\<close>

definition flatten :: "'a tensor \<Rightarrow> 'a tensor" where
  "flatten t = \<lparr>shape = [prod_list (shape t)], data = data t\<rparr>"

text \<open>
  \<^verbatim>\<open>b, d, h, w = tensor.size()\<close> raises \<^verbatim>\<open>ValueError\<close> unless the shape has exactly four
  entries; then \<^verbatim>\<open>view(b * d, h * w)\<close>, \<^verbatim>\<open>torch.mm(tensor, tensor.t())\<close> and
  \<^verbatim>\<open>torch.flatten\<close>.
\<close>

definition gram_matrix :: "('a::comm_semiring_0) tensor \<Rightarrow> py_error + 'a tensor" where
  "gram_matrix tensor =
     (case shape tensor of
        [b, d, h, w] \<Rightarrow>
          (case view tensor [b * d, h * w] of
             Inl e \<Rightarrow> Inl e
           | Inr tensor' \<Rightarrow>
               (case transpose_t tensor' of
                  Inl e \<Rightarrow> Inl e
                | Inr tr \<Rightarrow>
                    (case mm tensor' tr of
                       Inl e \<Rightarrow> Inl e
                     | Inr gram \<Rightarrow> Inr (flatten gram))))
      | _ \<Rightarrow> Inl ValueError)"

section \<open>Pooling of frame descriptors\<close>

text \<open>
  Modelled from the spec: the module \<^verbatim>\<open>pooling\<close> (\<^verbatim>\<open>pooling.simple_pooling\<close>, called in
  \<^verbatim>\<open>run.py\<close>) is not among the source files. The spec's contract
  \<^verbatim>\<open>pool(sequence_of_FrameDescriptor, method) -> VideoDescriptor\<close>: an empty sequence
  is a \<open>DataShapeError\<close>, descriptors of different lengths are a \<open>DataShapeError\<close>, the
  methods are \<^verbatim>\<open>max\<close> (elementwise maximum) and \<^verbatim>\<open>mean\<close> (elementwise average), both
  accumulated in one pass, and any other method is a \<open>ConfigurationError\<close>.
\<close>

definition pool :: "real list list \<Rightarrow> string \<Rightarrow> py_error + real list" where
  "pool descriptors method =
     (case descriptors of
        [] \<Rightarrow> Inl DataShapeError
      | d # ds \<Rightarrow>
          if \<exists>x \<in> set ds. length x \<noteq> length d then Inl DataShapeError
          else if method = ''max'' then Inr (foldl (map2 max) d ds)
          else if method = ''mean'' then
            Inr (map (\<lambda>s. s / real (length descriptors)) (foldl (map2 (+)) d ds))
          else Inl ConfigurationError)"

section \<open>regression.py\<close>

subsection \<open>Helpers: errors in sequence, numpy indexing\<close>

definition bind_err :: "py_error + 'a \<Rightarrow> ('a \<Rightarrow> py_error + 'b) \<Rightarrow> py_error + 'b" where
  "bind_err r f = (case r of Inl e \<Rightarrow> Inl e | Inr v \<Rightarrow> f v)"

text \<open>A loop body run on each element in order; the first exception ends the loop.\<close>

fun map_err :: "('a \<Rightarrow> py_error + 'b) \<Rightarrow> 'a list \<Rightarrow> py_error + 'b list" where
  "map_err f [] = Inr []"
| "map_err f (x # xs) =
     (case f x of
        Inl e \<Rightarrow> Inl e
      | Inr v \<Rightarrow> (case map_err f xs of Inl e \<Rightarrow> Inl e | Inr vs \<Rightarrow> Inr (v # vs)))"

text \<open>\<^verbatim>\<open>X[idx]\<close> for an index array: \<^verbatim>\<open>IndexError\<close> when an index is out of bounds.\<close>

definition take_rows :: "'a list \<Rightarrow> nat list \<Rightarrow> py_error + 'a list" where
  "take_rows X idx =
     (if \<forall>i \<in> set idx. i < length X then Inr (map (\<lambda>i. X ! i) idx) else Inl IndexError)"

text \<open>\<^verbatim>\<open>xs[lo:hi] = v\<close> for a scalar \<open>v\<close>: the slice is clipped to the array.\<close>

definition slice_assign :: "'a list \<Rightarrow> nat \<Rightarrow> nat \<Rightarrow> 'a \<Rightarrow> 'a list" where
  "slice_assign xs lo hi v = map (\<lambda>j. if lo \<le> j \<and> j < hi then v else xs ! j) [0..<length xs]"

text \<open>\<^verbatim>\<open>range(start, stop, step)\<close> for a positive step.\<close>

definition range_step :: "nat \<Rightarrow> nat \<Rightarrow> nat \<Rightarrow> nat list" where
  "range_step start stop step =
     map (\<lambda>k. start + step * k) [0..<(stop - start + step - 1) div step]"

text \<open>\<^verbatim>\<open>np.flatnonzero\<close> of a boolean mask: the positions that hold, ascending.\<close>

definition flatnonzero :: "bool list \<Rightarrow> nat list" where
  "flatnonzero msk = filter (\<lambda>i. msk ! i) [0..<length msk]"

text \<open>Position of the first occurrence.\<close>

fun index_of :: "'a list \<Rightarrow> 'a \<Rightarrow> nat" where
  "index_of [] x = 0"
| "index_of (y # ys) x = (if x = y then 0 else Suc (index_of ys x))"

text \<open>\<^verbatim>\<open>np.unique(xs, return_inverse=True)\<close>: the sorted distinct values, and for each
  element its position among them.\<close>

definition np_unique_inverse :: "nat list \<Rightarrow> nat list \<times> nat list" where
  "np_unique_inverse xs =
     (let classes = sort (remdups xs) in (classes, map (index_of classes) xs))"

subsection \<open>The random generator\<close>

text \<open>
  Both splitters are constructed without \<^verbatim>\<open>random_state\<close>, so they draw from numpy's
  process-wide generator. The generator is a parameter: \<open>rng k n\<close> is the permutation of
  \<open>0, \<dots>, n - 1\<close> returned by the \<open>k\<close>-th draw of a run. What numpy promises of a draw
  is \<open>permutation_of_range\<close>.
\<close>

type_synonym rng = "nat \<Rightarrow> nat \<Rightarrow> nat list"

definition permutation_of_range :: "nat list \<Rightarrow> nat \<Rightarrow> bool" where
  "permutation_of_range perm n \<longleftrightarrow> distinct perm \<and> set perm = {0..<n}"

subsection \<open>The grouped split of live\_dataset\_regression\<close>

text \<open>
  The loop \<^verbatim>\<open>for i in range(0, 150, 15)\<close> over \<^verbatim>\<open>groups = np.empty(150, dtype='u1')\<close>:
  \<^verbatim>\<open>groups[i: i + 15] = i / 15\<close> and \<^verbatim>\<open>video_groups.append(video_list[i])\<close>, the
  latter an \<^verbatim>\<open>IndexError\<close> when the list is too short. \<open>i\<close> is a multiple of 15, so
  \<open>i / 15\<close> is the whole number \<open>i div 15\<close>, at most 9: the unsigned bytes are kept as
  naturals. \<open>np.empty\<close> leaves the array's contents unspecified: they are the parameter
  \<open>garbage\<close>.
\<close>

definition np_empty :: "nat \<Rightarrow> (nat \<Rightarrow> 'a) \<Rightarrow> 'a list" where
  "np_empty n garbage = map garbage [0..<n]"

fun group_loop ::
    "string list \<Rightarrow> nat list \<Rightarrow> nat list \<times> string list \<Rightarrow> py_error + nat list \<times> string list" where
  "group_loop video_list [] st = Inr st"
| "group_loop video_list (i # rest) (groups, video_groups) =
     (if i < length video_list then
        group_loop video_list rest
          (slice_assign groups i (i + 15) (i div 15), video_groups @ [video_list ! i])
      else Inl IndexError)"

definition live_groups ::
    "string list \<Rightarrow> (nat \<Rightarrow> nat) \<Rightarrow> py_error + nat list \<times> string list" where
  "live_groups video_list garbage =
     group_loop video_list (range_step 0 150 15) (np_empty 150 garbage, [])"

text \<open>
  Modelled from the spec: the randomized group-aware splitter is the library class
  \<^verbatim>\<open>sklearn.model_selection.GroupShuffleSplit\<close>, not among the source files. Each
  repetition holds out whole groups: the distinct group ids are numbered in ascending
  order, the generator permutes the \<open>n\<close> numbers, the first \<open>n_test\<close> of them are the test
  groups and the next \<open>n_train\<close> the train groups, where \<open>n_train = \<lfloor>0.8 n\<rfloor>\<close> and
  \<open>n_test = n - n_train\<close>; the train and test index arrays are the positions of the
  samples of those groups, ascending. No train group is a \<^verbatim>\<open>ValueError\<close>.
\<close>

definition group_shuffle_split ::
    "rng \<Rightarrow> nat \<Rightarrow> nat list \<Rightarrow> py_error + (nat list \<times> nat list) list" where
  "group_shuffle_split rng n_splits groups =
     (let (classes, group_indices) = np_unique_inverse groups;
          n = length classes;
          n_train = (8 * n) div 10;
          n_test = n - n_train
      in if n_train = 0 then Inl ValueError
         else Inr (map (\<lambda>k.
                let permutation = rng k n;
                    ind_test = take n_test permutation;
                    ind_train = take n_train (drop n_test permutation)
                in (flatnonzero (map (\<lambda>g. g \<in> set ind_train) group_indices),
                    flatnonzero (map (\<lambda>g. g \<in> set ind_test) group_indices)))
              [0..<n_splits]))"

text \<open>\<^verbatim>\<open>GroupShuffleSplit(n_splits=50, train_size=0.8).split(X, y, groups)\<close>.\<close>

definition live_splits :: "rng \<Rightarrow> nat list \<Rightarrow> py_error + (nat list \<times> nat list) list" where
  "live_splits rng groups = group_shuffle_split rng 50 groups"

subsection \<open>The k-fold split of konvid1k\_dataset\_regression\<close>

text \<open>Consecutive slices of the given sizes: \<^verbatim>\<open>indices[current: current + size]\<close>.\<close>

fun chunks :: "nat list \<Rightarrow> 'a list \<Rightarrow> 'a list list" where
  "chunks [] xs = []"
| "chunks (fold_size # sizes) xs = take fold_size xs # chunks sizes (drop fold_size xs)"

text \<open>
  Modelled from the spec: standard k-fold partitioning with reshuffling is the library
  class \<^verbatim>\<open>sklearn.model_selection.KFold\<close>, not among the source files. More folds than
  samples is a \<^verbatim>\<open>ValueError\<close>. Otherwise the shuffled indices are cut into \<open>n_splits\<close>
  consecutive folds, the first \<open>n mod n_splits\<close> of size \<open>n div n_splits + 1\<close> and the
  others of size \<open>n div n_splits\<close>; each fold in turn is the test set and the remaining
  indices are the train set, both ascending.
\<close>

definition kfold_split ::
    "nat list \<Rightarrow> nat \<Rightarrow> nat \<Rightarrow> py_error + (nat list \<times> nat list) list" where
  "kfold_split indices n_splits n =
     (if n_splits > n then Inl ValueError
      else
        (let fold_sizes =
               map (\<lambda>f. n div n_splits + (if f < n mod n_splits then 1 else 0)) [0..<n_splits]
         in Inr (map (\<lambda>test. (filter (\<lambda>i. i \<notin> set test) [0..<n],
                              filter (\<lambda>i. i \<in> set test) [0..<n]))
                   (chunks fold_sizes indices))))"

text \<open>
  \<^verbatim>\<open>for _ in range(10): kfold = KFold(n_splits=5, shuffle=True); kfold.split(X)\<close>: one
  draw of the generator for each repetition.
\<close>

definition konvid_splits :: "rng \<Rightarrow> nat \<Rightarrow> py_error + (nat list \<times> nat list) list list" where
  "konvid_splits rng n = map_err (\<lambda>r. kfold_split (rng r n) 5 n) [0..<10]"

subsection \<open>Standardization\<close>

text \<open>
  Modelled from the spec: the standardizer (zero mean, unit variance per feature) is
  the library class \<^verbatim>\<open>sklearn.preprocessing.StandardScaler\<close>, not among the source
  files. \<^verbatim>\<open>fit\<close> takes of every column the mean and the population standard deviation,
  a zero deviation being replaced by 1; \<^verbatim>\<open>transform\<close> subtracts the mean and divides by
  the scale; \<^verbatim>\<open>inverse_transform\<close> multiplies by the scale and adds the mean. Each of
  them rejects an array without rows (\<^verbatim>\<open>ValueError\<close>). The numbers are reals;
  \<open>sc_mean\<close> and \<open>sc_scale\<close> are the attributes \<^verbatim>\<open>mean_\<close> and \<^verbatim>\<open>scale_\<close>.
\<close>

record scaler =
  sc_mean :: "real list"
  sc_scale :: "real list"

definition column :: "real list list \<Rightarrow> nat \<Rightarrow> real list" where
  "column rows j = map (\<lambda>r. r ! j) rows"

definition np_mean :: "real list \<Rightarrow> real" where
  "np_mean xs = sum_list xs / real (length xs)"

definition np_var :: "real list \<Rightarrow> real" where
  "np_var xs = np_mean (map (\<lambda>x. (x - np_mean xs)\<^sup>2) xs)"

definition handle_zeros_in_scale :: "real \<Rightarrow> real" where
  "handle_zeros_in_scale s = (if s = 0 then 1 else s)"

definition check_array :: "real list list \<Rightarrow> py_error + real list list" where
  "check_array rows = (if rows = [] then Inl ValueError else Inr rows)"

definition scaler_fit :: "real list list \<Rightarrow> py_error + scaler" where
  "scaler_fit rows =
     bind_err (check_array rows) (\<lambda>rows.
       Inr \<lparr>sc_mean = map (\<lambda>j. np_mean (column rows j)) [0..<length (hd rows)],
            sc_scale = map (\<lambda>j. handle_zeros_in_scale (sqrt (np_var (column rows j))))
                       [0..<length (hd rows)]\<rparr>)"

definition scaler_transform :: "scaler \<Rightarrow> real list list \<Rightarrow> py_error + real list list" where
  "scaler_transform sc rows =
     bind_err (check_array rows) (\<lambda>rows.
       Inr (map (\<lambda>r. map (\<lambda>j. (r ! j - sc_mean sc ! j) / sc_scale sc ! j) [0..<length r]) rows))"

definition scaler_inverse_transform ::
    "scaler \<Rightarrow> real list list \<Rightarrow> py_error + real list list" where
  "scaler_inverse_transform sc rows =
     bind_err (check_array rows) (\<lambda>rows.
       Inr (map (\<lambda>r. map (\<lambda>j. r ! j * sc_scale sc ! j + sc_mean sc ! j) [0..<length r]) rows))"

subsection \<open>The fold procedure\<close>

text \<open>
  What the run takes from outside the repository: the random generator, the contents
  \<^verbatim>\<open>np.empty\<close> leaves in the group array, the LIVE sequence list read by
  \<^verbatim>\<open>dh.get_live_info\<close>, the two regressors and the two correlation functions of scipy.
  A regressor is given by its training: \<open>env_fit E kind X_train y_train\<close> is the
  prediction of the trained model for one row (\<^verbatim>\<open>SVR(kernel='rbf', epsilon=0.3)\<close> for
  \<open>SVR\<close>, the Keras network of \<^verbatim>\<open>nn_regressor\<close> for \<open>NN\<close>).
\<close>

datatype regressor_kind = SVR | NN

record env =
  env_rng :: rng
  env_garbage :: "nat \<Rightarrow> nat"
  env_video_list :: "string list"
  env_fit :: "regressor_kind \<Rightarrow> real list list \<Rightarrow> real list \<Rightarrow> real list \<Rightarrow> real"
  env_spearmanr :: "real list \<Rightarrow> real list \<Rightarrow> real \<times> real"
  env_pearsonr :: "real list \<Rightarrow> real list \<Rightarrow> real \<times> real"

text \<open>\<^verbatim>\<open>reshape(-1, 1)\<close> of a vector and \<^verbatim>\<open>squeeze()\<close> of a one-column array.\<close>

definition reshape_col :: "real list \<Rightarrow> real list list" where
  "reshape_col xs = map (\<lambda>v. [v]) xs"

definition squeeze :: "real list list \<Rightarrow> real list" where
  "squeeze rows = concat rows"

text \<open>\<^verbatim>\<open>str.upper()\<close> and \<^verbatim>\<open>str.lower()\<close> on the ASCII letters.\<close>

definition ascii_lowercase :: string where
  "ascii_lowercase = ''abcdefghijklmnopqrstuvwxyz''"

definition ascii_uppercase :: string where
  "ascii_uppercase = ''ABCDEFGHIJKLMNOPQRSTUVWXYZ''"

definition str_upper :: "string \<Rightarrow> string" where
  "str_upper s = map (\<lambda>c. case map_of (zip ascii_lowercase ascii_uppercase) c of
                          Some u \<Rightarrow> u | None \<Rightarrow> c) s"

definition str_lower :: "string \<Rightarrow> string" where
  "str_lower s = map (\<lambda>c. case map_of (zip ascii_uppercase ascii_lowercase) c of
                          Some l \<Rightarrow> l | None \<Rightarrow> c) s"

text \<open>
  The \<^verbatim>\<open>if\<close>/\<^verbatim>\<open>elif\<close> on \<^verbatim>\<open>regression_method\<close> in the loop body: with any other name
  \<^verbatim>\<open>regressor\<close> is never bound and \<^verbatim>\<open>regressor.predict\<close> raises.
\<close>

definition live_regressor :: "string \<Rightarrow> py_error + regressor_kind" where
  "live_regressor regression_method =
     (if regression_method = ''svr'' then Inr SVR
      else if regression_method = ''nn'' then Inr NN
      else Inl UnboundLocalError)"

definition konvid_regressor :: "string \<Rightarrow> py_error + regressor_kind" where
  "konvid_regressor regression_method =
     (if str_lower regression_method = ''svr'' then Inr SVR
      else if str_lower regression_method = ''nn'' then Inr NN
      else Inl UnboundLocalError)"

text \<open>The variables of one round of the loop over the splits, at its end.\<close>

record fold_vars =
  f_sc_X :: scaler
  f_sc_y :: scaler
  f_X_train :: "real list list"
  f_X_test :: "real list list"
  f_y_train :: "real list list"
  f_y_test :: "real list list"
  f_y_pred :: "real list list"
  f_coef :: real
  f_p :: real
  f_corr :: real

text \<open>
  The loop body, the same statements in \<^verbatim>\<open>live_dataset_regression\<close> and
  \<^verbatim>\<open>konvid1k_dataset_regression\<close> (which also saves a scatter plot): index \<open>X\<close> and \<open>y\<close>,
  \<^verbatim>\<open>sc_X.fit_transform(X_train)\<close>, \<^verbatim>\<open>sc_X.transform(X_test)\<close>,
  \<^verbatim>\<open>sc_y.fit_transform(y_train)\<close>, fit the chosen regressor, predict,
  \<^verbatim>\<open>sc_y.inverse_transform(y_pred)\<close>, and the two correlations. \<open>y\<close> is the one-column
  array \<^verbatim>\<open>np.array(y).reshape(-1, 1)\<close>; \<open>chosen\<close> is the regressor the
  \<^verbatim>\<open>if\<close>/\<^verbatim>\<open>elif\<close> selects.
\<close>

definition fold_body ::
    "env \<Rightarrow> real list list \<Rightarrow> real list list \<Rightarrow> py_error + regressor_kind
     \<Rightarrow> nat list \<times> nat list \<Rightarrow> py_error + fold_vars" where
  "fold_body E X y chosen idx =
     (case idx of (train_idx, test_idx) \<Rightarrow>
      bind_err (take_rows X train_idx) (\<lambda>X_train.
      bind_err (take_rows y train_idx) (\<lambda>y_train.
      bind_err (take_rows X test_idx) (\<lambda>X_test.
      bind_err (take_rows y test_idx) (\<lambda>y_test.
      bind_err (scaler_fit X_train) (\<lambda>sc_X.
      bind_err (scaler_transform sc_X X_train) (\<lambda>X_train'.
      bind_err (scaler_transform sc_X X_test) (\<lambda>X_test'.
      bind_err (scaler_fit y_train) (\<lambda>sc_y.
      bind_err (scaler_transform sc_y y_train) (\<lambda>y_train'.
      bind_err chosen (\<lambda>kind.
      bind_err (scaler_inverse_transform sc_y
                  (reshape_col (map (env_fit E kind X_train' (squeeze y_train')) X_test')))
        (\<lambda>y_pred.
           Inr \<lparr>f_sc_X = sc_X, f_sc_y = sc_y, f_X_train = X_train', f_X_test = X_test',
                f_y_train = y_train', f_y_test = y_test, f_y_pred = y_pred,
                f_coef = fst (env_spearmanr E (squeeze y_test) (squeeze y_pred)),
                f_p = snd (env_spearmanr E (squeeze y_test) (squeeze y_pred)),
                f_corr = fst (env_pearsonr E (squeeze y_test) (squeeze y_pred))\<rparr>))))))))))))"

subsection \<open>The three entry points\<close>

text \<open>
  \<^verbatim>\<open>live_dataset_regression\<close>: the group loop, the splitter (whose \<^verbatim>\<open>split(X, y, groups)\<close>
  rejects arrays of different lengths with \<^verbatim>\<open>ValueError\<close>), the loop over the 50
  splits; returned are the three lists \<^verbatim>\<open>SROCC_coef, SROCC_p, PLCC\<close>.
\<close>

definition live_dataset_regression ::
    "env \<Rightarrow> real list list \<Rightarrow> real list \<Rightarrow> string
     \<Rightarrow> py_error + real list \<times> real list \<times> real list" where
  "live_dataset_regression E X y regression_method =
     bind_err (live_groups (env_video_list E) (env_garbage E)) (\<lambda>(groups, video_groups).
       if length X \<noteq> length groups \<or> length y \<noteq> length groups then Inl ValueError
       else
         bind_err (live_splits (env_rng E) groups) (\<lambda>splits.
         bind_err (map_err (fold_body E X (reshape_col y) (live_regressor regression_method))
                     splits) (\<lambda>folds.
           Inr (map f_coef folds, map f_p folds, map f_corr folds))))"

definition konvid1k_dataset_regression ::
    "env \<Rightarrow> real list list \<Rightarrow> real list \<Rightarrow> string
     \<Rightarrow> py_error + real list \<times> real list \<times> real list" where
  "konvid1k_dataset_regression E X y regression_method =
     bind_err (map_err (\<lambda>r.
         bind_err (kfold_split (env_rng E r (length X)) 5 (length X)) (\<lambda>splits.
           map_err (fold_body E X (reshape_col y) (konvid_regressor regression_method)) splits))
       [0..<10]) (\<lambda>reps.
       Inr (map f_coef (concat reps), map f_p (concat reps), map f_corr (concat reps)))"

text \<open>
  \<^verbatim>\<open>regression(X, y, regression_method='svr', dataset='LIVE')\<close>. Both calls pass the
  literal \<^verbatim>\<open>regression_method='svr'\<close>. With any other dataset name \<^verbatim>\<open>SROCC_coef\<close> is
  unbound when it is printed. The value is the three lists the function prints.
\<close>

definition regression ::
    "env \<Rightarrow> real list list \<Rightarrow> real list \<Rightarrow> string \<Rightarrow> string
     \<Rightarrow> py_error + real list \<times> real list \<times> real list" where
  "regression E X y regression_method dataset =
     (if str_upper dataset = ''LIVE'' then live_dataset_regression E X y ''svr''
      else if str_upper dataset = ''KONVID1K'' then konvid1k_dataset_regression E X y ''svr''
      else Inl UnboundLocalError)"

chapter \<open>Properties\<close>

subsection \<open>The difference loop\<close>

lemma diff_loop_pos:
  "0 < i \<Longrightarrow>
   diff_loop i lf acc fs = acc @ map (\<lambda>k. np_subtract (fs ! k) ((lf # fs) ! k)) [0..<length fs]"
proof (induction fs arbitrary: i lf acc)
  case Nil
  then show ?case by simp
next
  case (Cons f fs)
  have "map (\<lambda>k. np_subtract ((f # fs) ! k) ((lf # f # fs) ! k)) [0..<length (f # fs)]
      = np_subtract f lf # map (\<lambda>k. np_subtract (fs ! k) ((f # fs) ! k)) [0..<length fs]"
    by (simp add: map_upt_Suc del: upt_Suc)
  with Cons show ?case by simp
qed

lemma diff_loop_start:
  "diff_loop 0 lf [] (f # fs) = map (\<lambda>k. np_subtract (fs ! k) ((f # fs) ! k)) [0..<length fs]"
  by (simp add: diff_loop_pos)

text \<open>
  C9. For a frame sequence of length \<open>n \<ge> 1\<close> (the frames the selected reader yields),
  the call with \<^verbatim>\<open>frame_diff=True\<close> returns exactly \<open>n - 1\<close> items, and item \<open>i\<close> is
  the elementwise (8-bit) difference of frame \<open>i + 1\<close> and frame \<open>i\<close>.
\<close>

theorem get_frames_diff_items:
  assumes "get_frames vr p m h w False = Inr (FramesGen (Some frames))"
    and "1 \<le> length frames"
  shows "\<exists>ds. get_frames vr p m h w True = Inr (FramesDiff ds)
           \<and> int (length ds) = int (length frames) - 1
           \<and> (\<forall>i < length ds. ds ! i = np_subtract (frames ! (i + 1)) (frames ! i))"
proof -
  from assms(1) have sel: "select_frames_gen vr p m h w = Some frames"
    by (simp add: get_frames_def)
  from assms(2) obtain f fs where fr: "frames = f # fs"
    by (cases frames) auto
  have "get_frames vr p m h w True = Inr (FramesDiff (diff_loop 0 [] [] frames))"
    by (simp add: get_frames_def sel)
  moreover have "diff_loop 0 [] [] frames
      = map (\<lambda>k. np_subtract (fs ! k) ((f # fs) ! k)) [0..<length fs]"
    unfolding fr by (rule diff_loop_start)
  ultimately show ?thesis
    by (simp add: fr)
qed

theorem get_frames_diff_items_witness:
  "get_frames (\<lambda>_ _. [[10, 20], [7, 25], [7, 0]]) ''clip.mp4'' ''rgb'' 0 0 False
     = Inr (FramesGen (Some [[10, 20], [7, 25], [7, 0]]))
   \<and> 1 \<le> length [[10, 20], [7, 25], [7, 0 :: 8 word]]
   \<and> get_frames (\<lambda>_ _. [[10, 20], [7, 25], [7, 0]]) ''clip.mp4'' ''rgb'' 0 0 True
     = Inr (FramesDiff [[253, 5], [0, 231]])"
proof -
  have a: "get_frames (\<lambda>_ _. [[10, 20], [7, 25], [7, 0]]) ''clip.mp4'' ''rgb'' 0 0 False
     = Inr (FramesGen (Some [[10, 20], [7, 25], [7, 0]]))"
    by (simp add: get_frames_def select_frames_gen_def)
  have b: "1 \<le> length [[10, 20], [7, 25], [7, 0 :: 8 word]]"
    by simp
  from get_frames_diff_items [OF a b] obtain ds where
    d: "get_frames (\<lambda>_ _. [[10, 20], [7, 25], [7, 0]]) ''clip.mp4'' ''rgb'' 0 0 True
          = Inr (FramesDiff ds)"
    and l: "int (length ds) = int (length [[10, 20], [7, 25], [7, 0 :: 8 word]]) - 1"
    and e: "\<forall>i < length ds. ds ! i
          = np_subtract ([[10, 20], [7, 25], [7, 0]] ! (i + 1)) ([[10, 20], [7, 25], [7, 0]] ! i)"
    by blast
  from l have len: "length ds = 2" by simp
  from e len have "ds ! 0 = [253, 5]" "ds ! 1 = [0, 231]"
    by (simp_all add: np_subtract_def)
  with len have "ds = [[253, 5], [0, 231]]"
    by (auto simp: list_eq_iff_nth_eq less_Suc_eq numeral_2_eq_2)
  with a b d show ?thesis by simp
qed

text \<open>
  C10. For a path whose extension is not \<^verbatim>\<open>mp4\<close> and \<^verbatim>\<open>frame_diff=False\<close>, a colour
  mode other than \<^verbatim>\<open>'rgb'\<close> and \<^verbatim>\<open>'gray'\<close> makes \<^verbatim>\<open>get_frames\<close> return \<^verbatim>\<open>None\<close>; no
  error is raised.
\<close>

theorem get_frames_unknown_mode_none:
  assumes "last (split_on CHR ''.'' vid_path) \<noteq> ''mp4''"
    and "frame_color_mode \<noteq> ''rgb''"
    and "frame_color_mode \<noteq> ''gray''"
  shows "get_frames vr vid_path frame_color_mode height width False = Inr (FramesGen None)"
  using assms by (simp add: get_frames_def select_frames_gen_def)

theorem get_frames_unknown_mode_none_witness:
  "last (split_on CHR ''.'' ''seq/pa1_25fps.yuv'') \<noteq> ''mp4''
   \<and> ''bgr'' \<noteq> ''rgb'' \<and> ''bgr'' \<noteq> ''gray''
   \<and> get_frames (\<lambda>_ _. []) ''seq/pa1_25fps.yuv'' ''bgr'' 432 768 False
       = Inr (FramesGen None)"
proof -
  have a: "last (split_on CHR ''.'' ''seq/pa1_25fps.yuv'') \<noteq> ''mp4''"
    by simp
  have b: "''bgr'' \<noteq> ''rgb''" and c: "''bgr'' \<noteq> ''gray''"
    by simp_all
  from get_frames_unknown_mode_none [OF a b c, of "\<lambda>_ _. []" 432 768] a b c show ?thesis
    by simp
qed

subsection \<open>The Gram vector\<close>

lemma length_row_major: "length (row_major r c f) = r * c"
  by (induction r) (simp_all add: row_major_def)

lemma row_major_Suc: "row_major (Suc r) c f = row_major r c f @ map (f r) [0..<c]"
  by (simp add: row_major_def)

lemma row_major_nth: "i < r \<Longrightarrow> j < c \<Longrightarrow> row_major r c f ! (i * c + j) = f i j"
proof (induction r)
  case 0
  then show ?case by simp
next
  case (Suc r)
  show ?case
  proof (cases "i < r")
    case True
    then have "Suc i \<le> r" by simp
    then have "Suc i * c \<le> r * c" by (rule mult_le_mono1)
    with Suc.prems(2) have "i * c + j < r * c" by simp
    with True Suc show ?thesis
      by (simp add: row_major_Suc nth_append length_row_major)
  next
    case False
    with Suc.prems(1) have "i = r" by simp
    with Suc.prems(2) show ?thesis
      by (simp add: row_major_Suc nth_append length_row_major)
  qed
qed

lemma gram_matrix_4d:
  assumes "shape t = [b, d, h, w]"
  shows "gram_matrix t = Inr \<lparr>shape = [(b * d) * (b * d)],
     data = row_major (b * d) (b * d) (\<lambda>i j. sum_list (map (\<lambda>l. data t ! (i * (h * w) + l)
       * row_major (h * w) (b * d) (\<lambda>j i. data t ! (i * (h * w) + j)) ! (l * (b * d) + j))
         [0..<h * w]))\<rparr>"
  using assms by (simp add: gram_matrix_def view_def transpose_t_def mm_def flatten_def)

lemma gram_entry:
  assumes "i < n" "j < n"
  shows "row_major n n (\<lambda>i j. sum_list (map (\<lambda>l. xs ! (i * k + l)
       * row_major k n (\<lambda>j i. xs ! (i * k + j)) ! (l * n + j)) [0..<k])) ! (i * n + j)
     = sum_list (map (\<lambda>l. xs ! (i * k + l) * xs ! (j * k + l)) [0..<k])"
proof -
  have inner: "map (\<lambda>l. xs ! (i * k + l) * row_major k n (\<lambda>j i. xs ! (i * k + j)) ! (l * n + j)) [0..<k]
      = map (\<lambda>l. xs ! (i * k + l) * xs ! (j * k + l)) [0..<k]"
    using assms(2) by (intro map_cong refl) (simp add: row_major_nth)
  show ?thesis
    by (simp only: row_major_nth [OF assms] inner)
qed

text \<open>
  C2. For an activation of shape \<open>(1, C, H, W)\<close> with \<open>H * W > 0\<close>, \<^verbatim>\<open>gram_matrix\<close>
  returns a 1-D tensor of length \<open>C\<^sup>2\<close>, and its entry at \<open>i * C + j\<close> equals its entry
  at \<open>j * C + i\<close> for all \<open>i, j < C\<close>.
\<close>

theorem gram_matrix_symmetric:
  fixes t :: "('a::comm_semiring_0) tensor"
  assumes "wf_tensor t" and "shape t = [1, C, H, W]" and "0 < H * W"
  shows "\<exists>g. gram_matrix t = Inr g \<and> shape g = [C * C] \<and> length (data g) = C * C
           \<and> (\<forall>i < C. \<forall>j < C. data g ! (i * C + j) = data g ! (j * C + i))"
proof -
  let ?g = "\<lparr>shape = [(1 * C) * (1 * C)],
     data = row_major (1 * C) (1 * C) (\<lambda>i j. sum_list (map (\<lambda>l. data t ! (i * (H * W) + l)
       * row_major (H * W) (1 * C) (\<lambda>j i. data t ! (i * (H * W) + j)) ! (l * (1 * C) + j))
         [0..<H * W]))\<rparr>"
  have g: "gram_matrix t = Inr ?g"
    using assms(2) by (rule gram_matrix_4d)
  have sym: "data ?g ! (i * C + j) = data ?g ! (j * C + i)" if "i < C" "j < C" for i j
  proof -
    have "data ?g ! (i * C + j)
        = sum_list (map (\<lambda>l. data t ! (i * (H * W) + l) * data t ! (j * (H * W) + l)) [0..<H * W])"
      using gram_entry [of i "1 * C" j "data t" "H * W"] that by simp
    also have "\<dots> = sum_list (map (\<lambda>l. data t ! (j * (H * W) + l) * data t ! (i * (H * W) + l)) [0..<H * W])"
      by (simp add: mult.commute)
    also have "\<dots> = data ?g ! (j * C + i)"
      using gram_entry [of j "1 * C" i "data t" "H * W"] that by simp
    finally show ?thesis .
  qed
  have "shape ?g = [C * C]" "length (data ?g) = C * C"
    by (simp_all add: length_row_major)
  with g sym show ?thesis
    by blast
qed

theorem gram_matrix_symmetric_witness:
  "wf_tensor \<lparr>shape = [1, 2, 1, 2], data = [1, 2, 3, 4 :: int]\<rparr>
   \<and> shape \<lparr>shape = [1, 2, 1, 2], data = [1, 2, 3, 4 :: int]\<rparr> = [1, 2, 1, 2]
   \<and> (0::nat) < 1 * 2
   \<and> (\<exists>g. gram_matrix \<lparr>shape = [1, 2, 1, 2], data = [1, 2, 3, 4 :: int]\<rparr> = Inr g
        \<and> shape g = [2 * 2] \<and> length (data g) = 2 * 2
        \<and> (\<forall>i < 2. \<forall>j < 2. data g ! (i * 2 + j) = data g ! (j * 2 + i)))"
proof -
  have a: "wf_tensor \<lparr>shape = [1, 2, 1, 2], data = [1, 2, 3, 4 :: int]\<rparr>"
    by (simp add: wf_tensor_def)
  have b: "shape \<lparr>shape = [1, 2, 1, 2], data = [1, 2, 3, 4 :: int]\<rparr> = [1, 2, 1, 2]"
    by simp
  have c: "(0::nat) < 1 * 2"
    by simp
  from gram_matrix_symmetric [OF a b c] a b c show ?thesis
    by blast
qed

text \<open>
  C3, as the code has it. \<^verbatim>\<open>gram_matrix\<close> raises (\<^verbatim>\<open>ValueError\<close>, from the unpacking
  of \<^verbatim>\<open>tensor.size()\<close>) whenever the tensor does not have exactly four dimensions. A
  4-D tensor of zero spatial extent is not rejected: the view has rows of length zero,
  every inner product is the empty sum, and the all-zero vector of length \<open>(b * d)\<^sup>2\<close>
  is returned.
\<close>

theorem gram_matrix_rank_and_empty:
  fixes t :: "('a::comm_semiring_0) tensor"
  shows "(length (shape t) \<noteq> 4 \<longrightarrow> gram_matrix t = Inl ValueError)
     \<and> (shape t = [b, d, h, w] \<and> h * w = 0 \<longrightarrow>
          gram_matrix t = Inr \<lparr>shape = [(b * d) * (b * d)],
                                data = replicate ((b * d) * (b * d)) 0\<rparr>)"
proof (intro conjI impI)
  assume "length (shape t) \<noteq> 4"
  then show "gram_matrix t = Inl ValueError"
    by (auto simp: gram_matrix_def split: list.splits)
next
  assume a: "shape t = [b, d, h, w] \<and> h * w = 0"
  then have hw: "h * w = 0" and sh: "shape t = [b, d, h, w]"
    by simp_all
  have "row_major r c (\<lambda>i j. (0::'a)) = replicate (r * c) 0" for r c
    by (induction r) (simp_all add: row_major_Suc map_replicate_const replicate_add [symmetric]
        add.commute, simp add: row_major_def)
  then show "gram_matrix t = Inr \<lparr>shape = [(b * d) * (b * d)],
      data = replicate ((b * d) * (b * d)) 0\<rparr>"
    using gram_matrix_4d [OF sh] by (simp add: hw)
qed

theorem gram_matrix_rank_and_empty_witness:
  "(length (shape \<lparr>shape = [2, 3], data = [1, 2, 3, 4, 5, 6 :: int]\<rparr>) \<noteq> 4
      \<and> gram_matrix \<lparr>shape = [2, 3], data = [1, 2, 3, 4, 5, 6 :: int]\<rparr> = Inl ValueError)
   \<and> (shape \<lparr>shape = [1, 2, 0, 3], data = ([] :: int list)\<rparr> = [1, 2, 0, 3] \<and> (0::nat) * 3 = 0
      \<and> gram_matrix \<lparr>shape = [1, 2, 0, 3], data = ([] :: int list)\<rparr>
          = Inr \<lparr>shape = [4], data = [0, 0, 0, 0]\<rparr>)"
proof -
  have r: "replicate 4 (0::int) = [0, 0, 0, 0]"
    by (simp add: numeral_Bit0 replicate_add)
  show ?thesis
    using gram_matrix_rank_and_empty [of "\<lparr>shape = [2, 3], data = [1, 2, 3, 4, 5, 6 :: int]\<rparr>"]
      gram_matrix_rank_and_empty [of "\<lparr>shape = [1, 2, 0, 3], data = ([] :: int list)\<rparr>" 1 2 0 3]
    by (simp add: r)
qed

theorem gram_matrix_zero_extent_counterexample:
  "gram_matrix \<lparr>shape = [1, 2, 0, 3], data = ([] :: int list)\<rparr>
     = Inr \<lparr>shape = [4], data = [0, 0, 0, 0]\<rparr>"
  by (simp add: gram_matrix_def view_def transpose_t_def mm_def flatten_def row_major_def
      upt_conv_Cons)

subsection \<open>Pooling\<close>

text \<open>
  C8. Pooling an empty sequence of frame descriptors fails with \<open>DataShapeError\<close>,
  whatever the method; no vector (zero-filled or other) is returned.
\<close>

theorem pool_empty_raises:
  "pool [] method = Inl DataShapeError \<and> (\<forall>v. pool [] method \<noteq> Inr v)"
  by (simp add: pool_def)

subsection \<open>The grouped split\<close>

lemma length_slice_assign: "length (slice_assign xs lo hi v) = length xs"
  by (simp add: slice_assign_def)

lemma slice_assign_nth:
  "j < length xs \<Longrightarrow> slice_assign xs lo hi v ! j = (if lo \<le> j \<and> j < hi then v else xs ! j)"
  by (simp add: slice_assign_def)

lemma range_step_live: "range_step 0 150 15 = map (\<lambda>k. 15 * k) [0..<10]"
  by (simp add: range_step_def)

lemma group_loop_inv:
  assumes "\<forall>k<m. 15 * k < length vl" and "a \<le> m" and "length gs = n"
    and "\<forall>j<n. j < 15 * a \<longrightarrow> gs ! j = j div 15"
  shows "\<exists>gs' vs'. group_loop vl (map (\<lambda>k. 15 * k) [a..<m]) (gs, vs) = Inr (gs', vs')
           \<and> length gs' = n \<and> (\<forall>j<n. j < 15 * m \<longrightarrow> gs' ! j = j div 15)"
  using assms
proof (induction "m - a" arbitrary: a gs vs)
  case 0
  then have "a = m" by simp
  with 0 show ?case by simp
next
  case (Suc d)
  then have am: "a < m" by simp
  then have upt: "[a..<m] = a # [Suc a..<m]"
    by (simp add: upt_conv_Cons)
  let ?gs1 = "slice_assign gs (15 * a) (15 * a + 15) ((15 * a) div 15)"
  have in_range: "15 * a < length vl"
    using Suc.prems(1) am by simp
  have len1: "length ?gs1 = n"
    using Suc.prems(3) by (simp add: length_slice_assign)
  have inv1: "\<forall>j<n. j < 15 * Suc a \<longrightarrow> ?gs1 ! j = j div 15"
  proof (intro allI impI)
    fix j assume j: "j < n" "j < 15 * Suc a"
    show "?gs1 ! j = j div 15"
    proof (cases "15 * a \<le> j")
      case True
      with j have "j div 15 = a" by simp
      with True j Suc.prems(3) show ?thesis
        by (simp add: slice_assign_nth)
    next
      case False
      with j Suc.prems(3,4) show ?thesis
        by (simp add: slice_assign_nth)
    qed
  qed
  have d: "d = m - Suc a"
    using Suc.hyps(2) by simp
  have "\<exists>gs' vs'. group_loop vl (map (\<lambda>k. 15 * k) [Suc a..<m]) (?gs1, vs @ [vl ! (15 * a)])
          = Inr (gs', vs') \<and> length gs' = n \<and> (\<forall>j<n. j < 15 * m \<longrightarrow> gs' ! j = j div 15)"
    using Suc.hyps(1) [OF d Suc.prems(1) _ len1 inv1] am by simp
  then show ?case
    using in_range by (simp add: upt)
qed

lemma live_groups_value:
  assumes "135 < length video_list"
  shows "\<exists>video_groups. live_groups video_list garbage
           = Inr (map (\<lambda>i. i div 15) [0..<150], video_groups)"
proof -
  have "\<forall>k<10. 15 * k < length video_list"
    using assms by auto
  from group_loop_inv [OF this, of 0 "np_empty 150 garbage" 150 "[]"]
  obtain gs' vs' where
    r: "group_loop video_list (map (\<lambda>k. 15 * k) [0..<10]) (np_empty 150 garbage, []) = Inr (gs', vs')"
    and l: "length gs' = 150" and v: "\<forall>j<150. j < 15 * 10 \<longrightarrow> gs' ! j = j div 15"
    by (auto simp: np_empty_def)
  from l v have "gs' = map (\<lambda>i. i div 15) [0..<150]"
    by (simp add: list_eq_iff_nth_eq)
  with r show ?thesis
    by (simp add: live_groups_def range_step_live)
qed

lemma index_of_nth: "distinct xs \<Longrightarrow> i < length xs \<Longrightarrow> index_of xs (xs ! i) = i"
proof (induction xs arbitrary: i)
  case Nil
  then show ?case by simp
next
  case (Cons x xs)
  then show ?case by (cases i) auto
qed

lemma index_of_upt: "g < n \<Longrightarrow> index_of [0..<n] g = g"
  using index_of_nth [of "[0..<n]" g] by simp

lemma set_live_group_ids: "set (map (\<lambda>i. i div 15) [0..<150]) = {0..<10::nat}"
proof
  show "set (map (\<lambda>i. i div 15) [0..<150]) \<subseteq> {0..<10::nat}"
    by auto
  show "{0..<10::nat} \<subseteq> set (map (\<lambda>i. i div 15) [0..<150])"
  proof
    fix g :: nat assume "g \<in> {0..<10}"
    then have "15 * g < 150" "g = (15 * g) div 15" by simp_all
    then have "g \<in> (\<lambda>i. i div 15) ` {0..<150}"
      by (metis atLeastLessThan_iff image_eqI zero_le)
    then show "g \<in> set (map (\<lambda>i. i div 15) [0..<150])" by simp
  qed
qed

lemma np_unique_inverse_live:
  "np_unique_inverse (map (\<lambda>i. i div 15) [0..<150])
     = ([0..<10], map (\<lambda>i. i div 15) [0..<150])"
proof -
  have "sort (remdups (map (\<lambda>i. i div 15) [0..<150])) = sorted_list_of_set {0..<10::nat}"
    unfolding set_live_group_ids [symmetric] by (rule sorted_list_of_set_sort_remdups [symmetric])
  then have c: "sort (remdups (map (\<lambda>i. i div 15) [0..<150])) = [0..<10]"
    by simp
  have "map (index_of [0..<10]) (map (\<lambda>i. i div 15) [0..<150]) = map (\<lambda>i. i div 15) [0..<150]"
    by (simp add: index_of_upt)
  then show ?thesis
    unfolding np_unique_inverse_def Let_def c by (simp only:)
qed

lemma set_flatnonzero_map:
  "set (flatnonzero (map P xs)) = {i. i < length xs \<and> P (xs ! i)}"
  by (auto simp: flatnonzero_def)

lemma live_splits_value:
  "live_splits rng (map (\<lambda>i. i div 15) [0..<150]) =
     Inr (map (\<lambda>k. (flatnonzero (map (\<lambda>g. g \<in> set (take 8 (drop 2 (rng k 10))))
                                     (map (\<lambda>i. i div 15) [0..<150])),
                     flatnonzero (map (\<lambda>g. g \<in> set (take 2 (rng k 10)))
                                     (map (\<lambda>i. i div 15) [0..<150])))) [0..<50])"
  by (simp add: live_splits_def group_shuffle_split_def np_unique_inverse_live Let_def)

lemma permutation_of_range_length: "permutation_of_range p n \<Longrightarrow> length p = n"
  unfolding permutation_of_range_def
  by (metis card_atLeastLessThan diff_zero distinct_card)

lemma permutation_split:
  assumes "permutation_of_range p n" and "m \<le> n"
  shows "card (set (take m p)) = m"
    and "set (take m p) \<subseteq> {0..<n}"
    and "set (take (n - m) (drop m p)) = {0..<n} - set (take m p)"
proof -
  from assms(1) have d: "distinct p" and s: "set p = {0..<n}"
    by (simp_all add: permutation_of_range_def)
  have l: "length p = n"
    using assms(1) by (rule permutation_of_range_length)
  have "card (set (take m p)) = length (take m p)"
    using d by (intro distinct_card distinct_take)
  with l assms(2) show "card (set (take m p)) = m" by simp
  show "set (take m p) \<subseteq> {0..<n}"
    using s set_take_subset [of m p] by simp
  have "take (n - m) (drop m p) = drop m p"
    using l by simp
  moreover have "set (drop m p) = set p - set (take m p)"
  proof -
    have "set (take m p) \<inter> set (drop m p) = {}"
      using d by (rule set_take_disj_set_drop_if_distinct) simp
    moreover have "set p = set (take m p) \<union> set (drop m p)"
      by (metis append_take_drop_id set_append)
    ultimately show ?thesis by auto
  qed
  ultimately show "set (take (n - m) (drop m p)) = {0..<n} - set (take m p)"
    using s by simp
qed

lemma live_split_sets:
  fixes groups :: "nat list"
  assumes "permutation_of_range p 10"
    and len: "length groups = 150" and val: "\<forall>i<150. groups ! i = i div 15"
  defines "train_idx \<equiv> flatnonzero (map (\<lambda>g. g \<in> set (take 8 (drop 2 p))) groups)"
  defines "test_idx \<equiv> flatnonzero (map (\<lambda>g. g \<in> set (take 2 p)) groups)"
  shows "(\<lambda>i. groups ! i) ` set train_idx \<inter> (\<lambda>i. groups ! i) ` set test_idx = {}"
    and "\<exists>G. card G = 2 \<and> G \<subseteq> {0..<10}
           \<and> set test_idx = {i. i < 150 \<and> groups ! i \<in> G}
           \<and> set train_idx = {i. i < 150 \<and> groups ! i \<notin> G}"
proof -
  have c: "card (set (take 2 p)) = 2" and sub: "set (take 2 p) \<subseteq> {0..<10}"
    and tr: "set (take 8 (drop 2 p)) = {0..<10} - set (take 2 p)"
    using permutation_split [OF assms(1), of 2] by simp_all
  have te: "set test_idx = {i. i < 150 \<and> groups ! i \<in> set (take 2 p)}"
    unfolding test_idx_def set_flatnonzero_map len ..
  have tn0: "set train_idx = {i. i < 150 \<and> groups ! i \<in> {0..<10} - set (take 2 p)}"
    unfolding train_idx_def set_flatnonzero_map len tr ..
  have rng: "groups ! i \<in> {0..<10}" if "i < 150" for i
  proof -
    from that have "i div 15 < 10" by simp
    with val that show ?thesis by simp
  qed
  have tn: "set train_idx = {i. i < 150 \<and> groups ! i \<notin> set (take 2 p)}"
    unfolding tn0 using rng by blast
  show "(\<lambda>i. groups ! i) ` set train_idx \<inter> (\<lambda>i. groups ! i) ` set test_idx = {}"
    unfolding te tn by auto
  from c sub te tn show "\<exists>G. card G = 2 \<and> G \<subseteq> {0..<10}
           \<and> set test_idx = {i. i < 150 \<and> groups ! i \<in> G}
           \<and> set train_idx = {i. i < 150 \<and> groups ! i \<notin> G}"
    by blast
qed

lemma live_group_members:
  fixes g :: nat
  shows "{i. i < 150 \<and> i div 15 = g \<and> g < 10} = {i. 15 * g \<le> i \<and> i < 15 * g + 15 \<and> g < 10}"
proof -
  have "(i < 150 \<and> i div 15 = g \<and> g < 10) = (15 * g \<le> i \<and> i < 15 * g + 15 \<and> g < 10)" for i
    by (auto simp: div_eq_dividend_iff)
  then show ?thesis by simp
qed

text \<open>
  C1. For the 150 videos of LIVE the loop gives video \<open>i\<close> the group id \<open>i div 15\<close>: ten
  contiguous groups of 15. The splitter is run for 50 repetitions with train fraction
  0.8 over whole groups: in every repetition the test indices are all videos of two
  groups and the train indices all videos of the other eight, so no group id occurs on
  both sides. The list of sequence names must reach index 135, and each draw of the
  generator is a permutation of the ten group numbers.
\<close>

theorem live_grouped_split:
  assumes "135 < length video_list"
    and "\<forall>k<50. permutation_of_range (rng k 10) 10"
  shows "\<exists>groups video_groups splits.
      live_groups video_list garbage = Inr (groups, video_groups)
      \<and> length groups = 150 \<and> (\<forall>i<150. groups ! i = i div 15)
      \<and> (\<forall>g<10. {i. i < 150 \<and> groups ! i = g} = {i. 15 * g \<le> i \<and> i < 15 * g + 15})
      \<and> live_splits rng groups = Inr splits \<and> length splits = 50
      \<and> (\<forall>(train_idx, test_idx) \<in> set splits.
            (\<lambda>i. groups ! i) ` set train_idx \<inter> (\<lambda>i. groups ! i) ` set test_idx = {}
          \<and> (\<exists>G. card G = 2 \<and> G \<subseteq> {0..<10}
                \<and> set test_idx = {i. i < 150 \<and> groups ! i \<in> G}
                \<and> set train_idx = {i. i < 150 \<and> groups ! i \<notin> G}))"
proof -
  define groups where "groups = map (\<lambda>i. i div 15) [0..<150::nat]"
  define split where "split = (\<lambda>k.
     (flatnonzero (map (\<lambda>g. g \<in> set (take 8 (drop 2 (rng k 10)))) groups),
      flatnonzero (map (\<lambda>g. g \<in> set (take 2 (rng k 10))) groups)))"
  have len: "length groups = 150" and val: "\<forall>i<150. groups ! i = i div 15"
    by (simp_all add: groups_def)
  from live_groups_value [OF assms(1)] obtain video_groups where
    g: "live_groups video_list garbage = Inr (groups, video_groups)"
    unfolding groups_def by blast
  have s: "live_splits rng groups = Inr (map split [0..<50])"
    unfolding groups_def split_def by (rule live_splits_value)
  have each: "\<forall>(train_idx, test_idx) \<in> set (map split [0..<50]).
            (\<lambda>i. groups ! i) ` set train_idx \<inter> (\<lambda>i. groups ! i) ` set test_idx = {}
          \<and> (\<exists>G. card G = 2 \<and> G \<subseteq> {0..<10}
                \<and> set test_idx = {i. i < 150 \<and> groups ! i \<in> G}
                \<and> set train_idx = {i. i < 150 \<and> groups ! i \<notin> G})"
  proof (clarify, intro conjI)
    fix train_idx test_idx
    assume "(train_idx, test_idx) \<in> set (map split [0..<50])"
    then obtain k where k: "k < 50" and eq: "(train_idx, test_idx) = split k"
      by auto
    from assms(2) k have p: "permutation_of_range (rng k 10) 10"
      by simp
    from eq have tr: "train_idx = flatnonzero (map (\<lambda>g. g \<in> set (take 8 (drop 2 (rng k 10)))) groups)"
      and te: "test_idx = flatnonzero (map (\<lambda>g. g \<in> set (take 2 (rng k 10))) groups)"
      by (simp_all add: split_def)
    show "(\<lambda>i. groups ! i) ` set train_idx \<inter> (\<lambda>i. groups ! i) ` set test_idx = {}"
      unfolding tr te using p len val by (rule live_split_sets(1))
    show "\<exists>G. card G = 2 \<and> G \<subseteq> {0..<10}
                \<and> set test_idx = {i. i < 150 \<and> groups ! i \<in> G}
                \<and> set train_idx = {i. i < 150 \<and> groups ! i \<notin> G}"
      unfolding tr te using p len val by (rule live_split_sets(2))
  qed
  have members: "\<forall>g<10. {i. i < 150 \<and> groups ! i = g} = {i. 15 * g \<le> i \<and> i < 15 * g + 15}"
  proof (intro allI impI)
    fix g :: nat assume g: "g < 10"
    have "{i. i < 150 \<and> groups ! i = g} = {i. i < 150 \<and> i div 15 = g \<and> g < 10}"
      using val g by auto
    also have "\<dots> = {i. 15 * g \<le> i \<and> i < 15 * g + 15 \<and> g < 10}"
      by (rule live_group_members)
    also have "\<dots> = {i. 15 * g \<le> i \<and> i < 15 * g + 15}"
      using g by simp
    finally show "{i. i < 150 \<and> groups ! i = g} = {i. 15 * g \<le> i \<and> i < 15 * g + 15}" .
  qed
  have l50: "length (map split [0..<50]) = 50"
    by simp
  show ?thesis
    using g len val members s l50 each by blast
qed

theorem live_grouped_split_witness:
  "135 < length (replicate 150 ''pa1_25fps.yuv'')
   \<and> permutation_of_range (rotate 49 [0..<10]) 10
   \<and> (\<exists>groups video_groups splits.
      live_groups (replicate 150 ''pa1_25fps.yuv'') (\<lambda>_. 0) = Inr (groups, video_groups)
      \<and> length groups = 150 \<and> (\<forall>i<150. groups ! i = i div 15)
      \<and> (\<forall>g<10. {i. i < 150 \<and> groups ! i = g} = {i. 15 * g \<le> i \<and> i < 15 * g + 15})
      \<and> live_splits (\<lambda>k n. rotate k [0..<n]) groups = Inr splits \<and> length splits = 50
      \<and> (\<forall>(train_idx, test_idx) \<in> set splits.
            (\<lambda>i. groups ! i) ` set train_idx \<inter> (\<lambda>i. groups ! i) ` set test_idx = {}
          \<and> (\<exists>G. card G = 2 \<and> G \<subseteq> {0..<10}
                \<and> set test_idx = {i. i < 150 \<and> groups ! i \<in> G}
                \<and> set train_idx = {i. i < 150 \<and> groups ! i \<notin> G})))"
proof -
  have a: "135 < length (replicate 150 ''pa1_25fps.yuv'')"
    by simp
  have b: "\<forall>k<50. permutation_of_range ((\<lambda>k n. rotate k [0..<n]) k 10) 10"
    by (simp add: permutation_of_range_def)
  from live_grouped_split [of "replicate 150 ''pa1_25fps.yuv''" "\<lambda>k n. rotate k [0..<n]" "\<lambda>_. 0"]
    a b show ?thesis
    by (simp add: permutation_of_range_def)
qed

subsection \<open>The k-fold split\<close>

lemma map_err_all_Inr:
  "(\<And>x. x \<in> set xs \<Longrightarrow> f x = Inr (g x)) \<Longrightarrow> map_err f xs = Inr (map g xs)"
  by (induction xs) simp_all

lemma length_chunks: "length (chunks ss xs) = length ss"
  by (induction ss arbitrary: xs) simp_all

lemma concat_chunks: "concat (chunks ss xs) = take (sum_list ss) xs"
proof (induction ss arbitrary: xs)
  case Nil
  then show ?case by simp
next
  case (Cons s ss)
  have "take (s + sum_list ss) xs = take s xs @ take (sum_list ss) (drop s xs)"
    by (rule take_add)
  with Cons show ?case by simp
qed

lemma concat_member_unique:
  "distinct (concat xss) \<Longrightarrow> f < length xss \<Longrightarrow> f' < length xss
   \<Longrightarrow> x \<in> set (xss ! f) \<Longrightarrow> x \<in> set (xss ! f') \<Longrightarrow> f = f'"
proof (induction xss arbitrary: f f')
  case Nil
  then show ?case by simp
next
  case (Cons ys xss)
  show ?case
  proof (cases f)
    case 0
    show ?thesis
    proof (cases f')
      case 0
      with \<open>f = 0\<close> show ?thesis by simp
    next
      case (Suc m)
      with Cons.prems 0 have "x \<in> set ys" "x \<in> set (concat xss)"
        by auto
      with Cons.prems(1) show ?thesis by auto
    qed
  next
    case (Suc k)
    show ?thesis
    proof (cases f')
      case 0
      with Cons.prems Suc have "x \<in> set ys" "x \<in> set (concat xss)"
        by auto
      with Cons.prems(1) show ?thesis by auto
    next
      case (Suc m)
      with Cons.prems \<open>f = Suc k\<close> have "k = m"
        by (intro Cons.IH) auto
      with Suc \<open>f = Suc k\<close> show ?thesis by simp
    qed
  qed
qed

lemma fold_sizes_sum:
  "sum_list (map (\<lambda>f. n div 5 + (if f < n mod 5 then 1 else 0)) [0..<5]) = (n::nat)"
proof -
  have u: "[0..<5] = [0, 1, 2, 3, 4::nat]"
    by (simp add: upt_conv_Cons)
  define q where "q = n div 5"
  define r where "r = n mod 5"
  have n: "5 * q + r = n" and "r < 5"
    by (simp_all add: q_def r_def)
  then consider "r = 0" | "r = 1" | "r = 2" | "r = 3" | "r = 4"
    by linarith
  then have "sum_list (map (\<lambda>f. q + (if f < r then 1 else 0)) [0, 1, 2, 3, 4::nat]) = 5 * q + r"
    by cases simp_all
  then show ?thesis
    unfolding u n by (simp only: q_def r_def)
qed

lemma kfold_split_value:
  assumes "5 \<le> n"
  shows "kfold_split p 5 n =
     Inr (map (\<lambda>test. (filter (\<lambda>i. i \<notin> set test) [0..<n], filter (\<lambda>i. i \<in> set test) [0..<n]))
            (chunks (map (\<lambda>f. n div 5 + (if f < n mod 5 then 1 else 0)) [0..<5]) p))"
  using assms by (simp add: kfold_split_def)

lemma kfold_folds:
  fixes n :: nat
  assumes p: "permutation_of_range p n"
  defines "chs \<equiv> chunks (map (\<lambda>f. n div 5 + (if f < n mod 5 then 1 else 0)) [0..<5]) p"
  defines "folds \<equiv> map (\<lambda>test. (filter (\<lambda>i. i \<notin> set test) [0..<n],
                                   filter (\<lambda>i. i \<in> set test) [0..<n])) chs"
  shows "length folds = 5"
    and "\<forall>i<n. \<exists>!f. f < 5 \<and> i \<in> set (snd (folds ! f))"
    and "\<forall>(train_idx, test_idx) \<in> set folds.
           set train_idx \<inter> set test_idx = {} \<and> set train_idx \<union> set test_idx = {0..<n}"
proof -
  have len: "length chs = 5"
    by (simp add: chs_def length_chunks)
  then show "length folds = 5"
    by (simp add: folds_def)
  have d: "distinct p" and s: "set p = {0..<n}"
    using p by (simp_all add: permutation_of_range_def)
  have lp: "length p = n"
    using p by (rule permutation_of_range_length)
  have cc: "concat chs = p"
    unfolding chs_def concat_chunks fold_sizes_sum using lp by simp
  have test_set: "set (snd (folds ! f)) = set (chs ! f)" if "f < 5" for f
  proof -
    from that len have "chs ! f \<in> set chs" by simp
    then have "set (chs ! f) \<subseteq> set (concat chs)" by auto
    then have "set (chs ! f) \<subseteq> {0..<n}" by (simp add: cc s)
    moreover have "snd (folds ! f) = filter (\<lambda>i. i \<in> set (chs ! f)) [0..<n]"
      using that len by (simp add: folds_def)
    ultimately show ?thesis by auto
  qed
  show "\<forall>i<n. \<exists>!f. f < 5 \<and> i \<in> set (snd (folds ! f))"
  proof (intro allI impI)
    fix i assume "i < n"
    then have "i \<in> set (concat chs)" by (simp add: cc s)
    then obtain ys where "ys \<in> set chs" "i \<in> set ys" by auto
    then obtain f where f: "f < 5" "i \<in> set (chs ! f)"
      using len by (metis in_set_conv_nth)
    show "\<exists>!f. f < 5 \<and> i \<in> set (snd (folds ! f))"
    proof (rule ex1I [of _ f])
      show "f < 5 \<and> i \<in> set (snd (folds ! f))"
        using f by (simp add: test_set)
    next
      fix f' assume "f' < 5 \<and> i \<in> set (snd (folds ! f'))"
      then have f': "f' < 5" "i \<in> set (chs ! f')"
        using test_set [of f'] by simp_all
      have "distinct (concat chs)" by (simp add: cc d)
      then show "f' = f"
        using f' f len by (intro concat_member_unique [of chs f' f i]) simp_all
    qed
  qed
  show "\<forall>(train_idx, test_idx) \<in> set folds.
           set train_idx \<inter> set test_idx = {} \<and> set train_idx \<union> set test_idx = {0..<n}"
    by (auto simp: folds_def)
qed

text \<open>
  C4. With at least five videos (fewer make \<^verbatim>\<open>KFold.split\<close> raise), each of the 10
  repetitions cuts the video indices into 5 folds: every index is in the test set of
  exactly one fold of the repetition, train and test indices of a fold are disjoint (and
  together all indices), and \<open>5 * 10 = 50\<close> folds are produced in total. Each draw of the
  generator is a permutation of the indices.
\<close>

theorem konvid_kfold_partition:
  assumes "5 \<le> n"
    and "\<forall>r<10. permutation_of_range (rng r n) n"
  shows "\<exists>reps. konvid_splits rng n = Inr reps \<and> length reps = 10
      \<and> (\<forall>folds \<in> set reps.
            length folds = 5
          \<and> (\<forall>i<n. \<exists>!f. f < 5 \<and> i \<in> set (snd (folds ! f)))
          \<and> (\<forall>(train_idx, test_idx) \<in> set folds.
                set train_idx \<inter> set test_idx = {} \<and> set train_idx \<union> set test_idx = {0..<n}))
      \<and> length (concat reps) = 5 * 10"
proof -
  define folds_of where "folds_of = (\<lambda>r.
     map (\<lambda>test. (filter (\<lambda>i. i \<notin> set test) [0..<n], filter (\<lambda>i. i \<in> set test) [0..<n]))
       (chunks (map (\<lambda>f. n div 5 + (if f < n mod 5 then 1 else 0)) [0..<5]) (rng r n)))"
  have v: "konvid_splits rng n = Inr (map folds_of [0..<10])"
    unfolding konvid_splits_def folds_of_def
    by (rule map_err_all_Inr) (rule kfold_split_value [OF assms(1)])
  have each: "length folds = 5
          \<and> (\<forall>i<n. \<exists>!f. f < 5 \<and> i \<in> set (snd (folds ! f)))
          \<and> (\<forall>(train_idx, test_idx) \<in> set folds.
                set train_idx \<inter> set test_idx = {} \<and> set train_idx \<union> set test_idx = {0..<n})"
    if "folds \<in> set (map folds_of [0..<10])" for folds
  proof -
    from that obtain r where r: "r < 10" and eq: "folds = folds_of r"
      by auto
    from assms(2) r have p: "permutation_of_range (rng r n) n"
      by simp
    show ?thesis
      unfolding eq folds_of_def
      using kfold_folds(1) [OF p] kfold_folds(2) [OF p] kfold_folds(3) [OF p] by (intro conjI)
  qed
  have "length (concat (map folds_of [0..<10])) = sum_list (map (\<lambda>r. length (folds_of r)) [0..<10])"
    by (simp add: length_concat comp_def)
  also have "map (\<lambda>r. length (folds_of r)) [0..<10] = map (\<lambda>r. 5) [0..<10]"
    by (simp add: folds_of_def length_chunks)
  also have "sum_list (map (\<lambda>r. 5::nat) [0..<10]) = 5 * 10"
    by (simp add: sum_list_triv)
  finally have total: "length (concat (map folds_of [0..<10])) = 5 * 10" .
  have "length (map folds_of [0..<10]) = 10"
    by simp
  with v each total show ?thesis
    by blast
qed

theorem konvid_kfold_partition_witness:
  "(5::nat) \<le> 7
   \<and> permutation_of_range (rotate 9 [0..<7]) 7
   \<and> (\<exists>reps. konvid_splits (\<lambda>r n. rotate r [0..<n]) 7 = Inr reps \<and> length reps = 10
      \<and> (\<forall>folds \<in> set reps.
            length folds = 5
          \<and> (\<forall>i<7. \<exists>!f. f < 5 \<and> i \<in> set (snd (folds ! f)))
          \<and> (\<forall>(train_idx, test_idx) \<in> set folds.
                set train_idx \<inter> set test_idx = {} \<and> set train_idx \<union> set test_idx = {0..<7}))
      \<and> length (concat reps) = 5 * 10)"
proof -
  have a: "(5::nat) \<le> 7"
    by simp
  have b: "\<forall>r<10. permutation_of_range ((\<lambda>r n. rotate r [0..<n]) r 7) 7"
    by (simp add: permutation_of_range_def)
  from konvid_kfold_partition [of 7 "\<lambda>r n. rotate r [0..<n]"] a b show ?thesis
    by (simp add: permutation_of_range_def)
qed

subsection \<open>Where the randomness of the splits comes from\<close>

lemma map_err_cong_on:
  "(\<And>x. x \<in> set xs \<Longrightarrow> f x = g x) \<Longrightarrow> map_err f xs = map_err g xs"
  by (induction xs) (auto split: sum.splits)

text \<open>
  C7, as the code has it. Neither splitter is given a seed: the regression functions
  have no such parameter and both splitters are constructed without
  \<^verbatim>\<open>random_state\<close>. The sequence of splits is a function of the draws of the ambient
  generator only: two runs in which the generator returns the same permutations (50
  draws over the group numbers for the grouped split, 10 draws over the video indices
  for the k-fold split) produce the same sequence of (train, test) index sets.
\<close>

theorem splits_determined_by_draws:
  "((\<forall>k<50. rng k (length (remdups groups)) = rng' k (length (remdups groups)))
      \<longrightarrow> live_splits rng groups = live_splits rng' groups)
   \<and> ((\<forall>r<10. rng r n = rng' r n) \<longrightarrow> konvid_splits rng n = konvid_splits rng' n)"
proof (intro conjI impI)
  assume a: "\<forall>k<50. rng k (length (remdups groups)) = rng' k (length (remdups groups))"
  have l: "length (sort (remdups groups)) = length (remdups groups)"
    by simp
  show "live_splits rng groups = live_splits rng' groups"
    unfolding live_splits_def group_shuffle_split_def np_unique_inverse_def Let_def prod.case l
    using a by (auto intro!: map_cong)
next
  assume a: "\<forall>r<10. rng r n = rng' r n"
  show "konvid_splits rng n = konvid_splits rng' n"
    unfolding konvid_splits_def using a by (intro map_err_cong_on) simp
qed

theorem splits_determined_by_draws_witness:
  "live_splits (\<lambda>k n. rotate k [0..<n]) [0, 0, 1, 1, 2, 2]
       = live_splits (\<lambda>k n. if k < 50 then rotate k [0..<n] else []) [0, 0, 1, 1, 2, 2]
   \<and> konvid_splits (\<lambda>k n. rotate k [0..<n]) 7
       = konvid_splits (\<lambda>k n. if k < 50 then rotate k [0..<n] else []) 7"
proof -
  have a: "\<forall>k<50. (\<lambda>k n. rotate k [0..<n]) k (length (remdups [0, 0, 1, 1, 2, 2::nat]))
          = (\<lambda>k n. if k < 50 then rotate k [0..<n] else []) k
              (length (remdups [0, 0, 1, 1, 2, 2::nat]))"
    by simp
  have b: "\<forall>r<10. (\<lambda>k n. rotate k [0..<n]) r 7
          = (\<lambda>k n. if k < 50 then rotate k [0..<n] else []) r 7"
    by simp
  from splits_determined_by_draws [of "\<lambda>k n. rotate k [0..<n]" "[0, 0, 1, 1, 2, 2]"
      "\<lambda>k n. if k < 50 then rotate k [0..<n] else []" 7] a b
  show ?thesis
    by blast
qed

text \<open>
  Two runs on the same inputs whose generator draws differ (the identity permutation in
  one, the reversed one in the other) give different splits: there is no argument of
  the run that fixes them.
\<close>

theorem live_splits_not_reproducible_counterexample:
  "live_splits (\<lambda>k n. [0..<n]) (map (\<lambda>i. i div 15) [0..<150])
     \<noteq> live_splits (\<lambda>k n. rev [0..<n]) (map (\<lambda>i. i div 15) [0..<150])"
proof
  define groups where "groups = map (\<lambda>i. i div 15) [0..<150::nat]"
  define split where "split = (\<lambda>(rng :: nat \<Rightarrow> nat \<Rightarrow> nat list) k.
     (flatnonzero (map (\<lambda>g. g \<in> set (take 8 (drop 2 (rng k 10)))) groups),
      flatnonzero (map (\<lambda>g. g \<in> set (take 2 (rng k 10))) groups)))"
  assume "live_splits (\<lambda>k n. [0..<n]) (map (\<lambda>i. i div 15) [0..<150])
     = live_splits (\<lambda>k n. rev [0..<n]) (map (\<lambda>i. i div 15) [0..<150])"
  then have "map (split (\<lambda>k n. [0..<n])) [0..<50] = map (split (\<lambda>k n. rev [0..<n])) [0..<50]"
    unfolding live_splits_value split_def groups_def by (simp only: sum.inject)
  then have "\<forall>k \<in> set [0..<50]. split (\<lambda>k n. [0..<n]) k = split (\<lambda>k n. rev [0..<n]) k"
    by (simp only: map_eq_conv)
  moreover have "(0::nat) \<in> set [0..<50]"
    by simp
  ultimately have "split (\<lambda>k n. [0..<n]) 0 = split (\<lambda>k n. rev [0..<n]) 0"
    by (rule bspec)
  then have "snd (split (\<lambda>k n. [0..<n]) 0) = snd (split (\<lambda>k n. rev [0..<n]) 0)"
    by (rule arg_cong)
  then have eq: "set (flatnonzero (map (\<lambda>g. g \<in> set (take 2 [0..<10])) groups))
      = set (flatnonzero (map (\<lambda>g. g \<in> set (take 2 (rev [0..<10]))) groups))"
    by (simp only: split_def snd_conv)
  have "0 \<in> set (flatnonzero (map (\<lambda>g. g \<in> set (take 2 [0..<10])) groups))"
    unfolding set_flatnonzero_map groups_def by simp
  moreover have "0 \<notin> set (flatnonzero (map (\<lambda>g. g \<in> set (take 2 (rev [0..<10]))) groups))"
    unfolding set_flatnonzero_map groups_def by (simp add: take_rev)
  ultimately show False
    unfolding eq by (rule notE [rotated])
qed

subsection \<open>Standardization in a fold\<close>

lemma take_rows_ok: "\<forall>i \<in> set idx. i < length X \<Longrightarrow> take_rows X idx = Inr (map ((!) X) idx)"
  by (simp add: take_rows_def)

lemma check_array_ok: "rows \<noteq> [] \<Longrightarrow> check_array rows = Inr rows"
  by (simp add: check_array_def)

lemma scaler_fit_ok:
  "rows \<noteq> [] \<Longrightarrow> \<exists>sc. scaler_fit rows = Inr sc"
  by (simp add: scaler_fit_def check_array_ok bind_err_def)

lemma scaler_transform_ok:
  "rows \<noteq> [] \<Longrightarrow> scaler_transform sc rows =
     Inr (map (\<lambda>r. map (\<lambda>j. (r ! j - sc_mean sc ! j) / sc_scale sc ! j) [0..<length r]) rows)"
  by (simp add: scaler_transform_def check_array_ok bind_err_def)

lemma scaler_inverse_transform_ok:
  "rows \<noteq> [] \<Longrightarrow> scaler_inverse_transform sc rows =
     Inr (map (\<lambda>r. map (\<lambda>j. r ! j * sc_scale sc ! j + sc_mean sc ! j) [0..<length r]) rows)"
  by (simp add: scaler_inverse_transform_def check_array_ok bind_err_def)

lemma reshape_col_rows:
  "\<forall>i \<in> set idx. i < length y \<Longrightarrow> map ((!) (reshape_col y)) idx = reshape_col (map ((!) y) idx)"
  by (simp add: reshape_col_def)

lemma scaler_fit_column:
  assumes "ys \<noteq> []"
  shows "\<exists>m s. scaler_fit (reshape_col ys) = Inr \<lparr>sc_mean = [m], sc_scale = [s]\<rparr> \<and> s \<noteq> 0"
proof -
  obtain v vs where ys: "ys = v # vs"
    using assms by (cases ys) auto
  have "handle_zeros_in_scale x \<noteq> 0" for x
    by (simp add: handle_zeros_in_scale_def)
  then show ?thesis
    by (simp add: ys scaler_fit_def reshape_col_def check_array_def bind_err_def)
qed

lemma scaler_column_roundtrip:
  assumes "ys \<noteq> []" and "s \<noteq> 0"
  shows "\<exists>t. scaler_transform \<lparr>sc_mean = [m], sc_scale = [s]\<rparr> (reshape_col ys) = Inr t
           \<and> scaler_inverse_transform \<lparr>sc_mean = [m], sc_scale = [s]\<rparr> t = Inr (reshape_col ys)"
proof -
  have ne: "reshape_col ys \<noteq> []"
    using assms(1) by (simp add: reshape_col_def)
  let ?t = "map (\<lambda>r. map (\<lambda>j. (r ! j - [m] ! j) / [s] ! j) [0..<length r]) (reshape_col ys)"
  have t: "scaler_transform \<lparr>sc_mean = [m], sc_scale = [s]\<rparr> (reshape_col ys) = Inr ?t"
    using scaler_transform_ok [OF ne] by simp
  have tv: "?t = reshape_col (map (\<lambda>v. (v - m) / s) ys)"
    by (simp add: reshape_col_def)
  have ne': "?t \<noteq> []"
    using assms(1) by (simp add: reshape_col_def)
  have "scaler_inverse_transform \<lparr>sc_mean = [m], sc_scale = [s]\<rparr> ?t
      = Inr (map (\<lambda>r. map (\<lambda>j. r ! j * [s] ! j + [m] ! j) [0..<length r]) ?t)"
    using scaler_inverse_transform_ok [OF ne'] by simp
  also have "map (\<lambda>r. map (\<lambda>j. r ! j * [s] ! j + [m] ! j) [0..<length r]) ?t = reshape_col ys"
    unfolding tv using assms(2) by (simp add: reshape_col_def)
  finally show ?thesis
    using t by blast
qed

lemma fold_body_value:
  assumes tr: "\<forall>i \<in> set train_idx. i < length X" and te: "\<forall>i \<in> set test_idx. i < length X"
    and len: "length y = length X"
    and ne: "train_idx \<noteq> []" "test_idx \<noteq> []"
    and fx: "scaler_fit (map ((!) X) train_idx) = Inr sc_X"
    and fy: "scaler_fit (map ((!) y) train_idx) = Inr sc_y"
    and tx: "scaler_transform sc_X (map ((!) X) train_idx) = Inr X_train"
    and tt: "scaler_transform sc_X (map ((!) X) test_idx) = Inr X_test"
    and ty: "scaler_transform sc_y (map ((!) y) train_idx) = Inr y_train"
    and inv: "scaler_inverse_transform sc_y
                (reshape_col (map (env_fit E kind X_train (squeeze y_train)) X_test)) = Inr y_pred"
  shows "fold_body E X y (Inr kind) (train_idx, test_idx) =
     Inr \<lparr>f_sc_X = sc_X, f_sc_y = sc_y, f_X_train = X_train, f_X_test = X_test,
          f_y_train = y_train, f_y_test = map ((!) y) test_idx, f_y_pred = y_pred,
          f_coef = fst (env_spearmanr E (squeeze (map ((!) y) test_idx)) (squeeze y_pred)),
          f_p = snd (env_spearmanr E (squeeze (map ((!) y) test_idx)) (squeeze y_pred)),
          f_corr = fst (env_pearsonr E (squeeze (map ((!) y) test_idx)) (squeeze y_pred))\<rparr>"
proof -
  have "take_rows X train_idx = Inr (map ((!) X) train_idx)"
    "take_rows X test_idx = Inr (map ((!) X) test_idx)"
    "take_rows y train_idx = Inr (map ((!) y) train_idx)"
    "take_rows y test_idx = Inr (map ((!) y) test_idx)"
    using tr te len by (simp_all add: take_rows_ok)
  then show ?thesis
    by (simp add: fold_body_def bind_err_def fx fy tx tt ty inv)
qed

text \<open>
  C5. In a fold of either strategy (the regressor chosen by the \<^verbatim>\<open>if\<close>/\<^verbatim>\<open>elif\<close> of
  \<^verbatim>\<open>live_dataset_regression\<close> or of \<^verbatim>\<open>konvid1k_dataset_regression\<close>), with train and
  test indices in range and not empty: the feature standardizer \<open>sc_X\<close> is the one fitted
  on the training rows of \<open>X\<close>, and that same \<open>sc_X\<close> transforms the training rows and the
  test rows; a second standardizer \<open>sc_y\<close> is fitted on the training scores; the
  predictions of the regressor on the standardized test rows go through
  \<open>sc_y\<close>'s inverse transform, which takes the standardized training scores back to the
  original ones; the correlations compare the original test scores with these
  predictions. The feature rows outside the training indices have no influence on
  \<open>sc_X\<close>, \<open>sc_y\<close> and the standardized training features.
\<close>

theorem fold_standardization:
  assumes "chosen = live_regressor regression_method \<or> chosen = konvid_regressor regression_method"
    and "chosen = Inr kind"
    and "\<forall>i \<in> set train_idx. i < length X" and "\<forall>i \<in> set test_idx. i < length X"
    and "length y = length X"
    and "train_idx \<noteq> []" and "test_idx \<noteq> []"
  shows "\<exists>sc_X sc_y v.
      scaler_fit (map ((!) X) train_idx) = Inr sc_X
    \<and> scaler_fit (reshape_col (map ((!) y) train_idx)) = Inr sc_y
    \<and> fold_body E X (reshape_col y) chosen (train_idx, test_idx) = Inr v
    \<and> f_sc_X v = sc_X \<and> f_sc_y v = sc_y
    \<and> scaler_transform sc_X (map ((!) X) train_idx) = Inr (f_X_train v)
    \<and> scaler_transform sc_X (map ((!) X) test_idx) = Inr (f_X_test v)
    \<and> scaler_transform sc_y (reshape_col (map ((!) y) train_idx)) = Inr (f_y_train v)
    \<and> scaler_inverse_transform sc_y
          (reshape_col (map (env_fit E kind (f_X_train v) (squeeze (f_y_train v))) (f_X_test v)))
        = Inr (f_y_pred v)
    \<and> scaler_inverse_transform sc_y (f_y_train v) = Inr (reshape_col (map ((!) y) train_idx))
    \<and> f_y_test v = reshape_col (map ((!) y) test_idx)
    \<and> f_coef v = fst (env_spearmanr E (map ((!) y) test_idx) (squeeze (f_y_pred v)))
    \<and> f_corr v = fst (env_pearsonr E (map ((!) y) test_idx) (squeeze (f_y_pred v)))
    \<and> (\<forall>X'. length X' = length X \<and> (\<forall>i \<in> set train_idx. X' ! i = X ! i) \<longrightarrow>
          (\<exists>v'. fold_body E X' (reshape_col y) chosen (train_idx, test_idx) = Inr v'
                \<and> f_sc_X v' = sc_X \<and> f_sc_y v' = sc_y \<and> f_X_train v' = f_X_train v))"
proof -
  let ?y = "reshape_col y"
  have ytr: "map ((!) ?y) train_idx = reshape_col (map ((!) y) train_idx)"
    using assms(3,5) by (simp add: reshape_col_rows)
  have yte: "map ((!) ?y) test_idx = reshape_col (map ((!) y) test_idx)"
    using assms(4,5) by (simp add: reshape_col_rows)
  have leny: "length ?y = length X"
    using assms(5) by (simp add: reshape_col_def)
  have sq: "squeeze (reshape_col zs) = zs" for zs
    by (induction zs) (simp_all add: squeeze_def reshape_col_def)
  have ne_tr: "map ((!) X) train_idx \<noteq> []" and ne_te: "map ((!) X) test_idx \<noteq> []"
    and ne_y: "map ((!) y) train_idx \<noteq> []"
    using assms(6,7) by simp_all
  obtain sc_X where fx: "scaler_fit (map ((!) X) train_idx) = Inr sc_X"
    using scaler_fit_ok [OF ne_tr] by blast
  obtain m s where fy: "scaler_fit (reshape_col (map ((!) y) train_idx))
      = Inr \<lparr>sc_mean = [m], sc_scale = [s]\<rparr>" and s: "s \<noteq> 0"
    using scaler_fit_column [OF ne_y] by blast
  define sc_y where "sc_y = \<lparr>sc_mean = [m], sc_scale = [s]\<rparr>"
  obtain X_train where tx: "scaler_transform sc_X (map ((!) X) train_idx) = Inr X_train"
    using scaler_transform_ok [OF ne_tr] by blast
  obtain X_test where tt: "scaler_transform sc_X (map ((!) X) test_idx) = Inr X_test"
    and lt: "length X_test = length test_idx"
    using scaler_transform_ok [OF ne_te, of sc_X] by simp
  obtain y_train where ty: "scaler_transform sc_y (reshape_col (map ((!) y) train_idx)) = Inr y_train"
    and rt: "scaler_inverse_transform sc_y y_train = Inr (reshape_col (map ((!) y) train_idx))"
    using scaler_column_roundtrip [OF ne_y s, of m] unfolding sc_y_def by blast
  have "reshape_col (map (env_fit E kind X_train (squeeze y_train)) X_test) \<noteq> []"
    using lt assms(7) by (auto simp: reshape_col_def)
  then obtain y_pred where inv: "scaler_inverse_transform sc_y
        (reshape_col (map (env_fit E kind X_train (squeeze y_train)) X_test)) = Inr y_pred"
    using scaler_inverse_transform_ok by blast
  define v where "v = \<lparr>f_sc_X = sc_X, f_sc_y = sc_y, f_X_train = X_train, f_X_test = X_test,
          f_y_train = y_train, f_y_test = map ((!) ?y) test_idx, f_y_pred = y_pred,
          f_coef = fst (env_spearmanr E (squeeze (map ((!) ?y) test_idx)) (squeeze y_pred)),
          f_p = snd (env_spearmanr E (squeeze (map ((!) ?y) test_idx)) (squeeze y_pred)),
          f_corr = fst (env_pearsonr E (squeeze (map ((!) ?y) test_idx)) (squeeze y_pred))\<rparr>"
  have body: "fold_body E X ?y chosen (train_idx, test_idx) = Inr v"
    unfolding v_def assms(2)
    using assms(3,4) leny assms(6,7) fx fy [folded ytr sc_y_def] tx tt ty [folded ytr] inv
    by (rule fold_body_value)
  have other: "\<exists>v'. fold_body E X' ?y chosen (train_idx, test_idx) = Inr v'
                \<and> f_sc_X v' = sc_X \<and> f_sc_y v' = sc_y \<and> f_X_train v' = f_X_train v"
    if X': "length X' = length X" "\<forall>i \<in> set train_idx. X' ! i = X ! i" for X'
  proof -
    have same: "map ((!) X') train_idx = map ((!) X) train_idx"
      using X'(2) by simp
    have ne_te': "map ((!) X') test_idx \<noteq> []"
      using assms(7) by simp
    obtain X_test' where tt': "scaler_transform sc_X (map ((!) X') test_idx) = Inr X_test'"
      and lt': "length X_test' = length test_idx"
      using scaler_transform_ok [OF ne_te', of sc_X] by simp
    have "reshape_col (map (env_fit E kind X_train (squeeze y_train)) X_test') \<noteq> []"
      using lt' assms(7) by (auto simp: reshape_col_def)
    then obtain y_pred' where inv': "scaler_inverse_transform sc_y
        (reshape_col (map (env_fit E kind X_train (squeeze y_train)) X_test')) = Inr y_pred'"
      using scaler_inverse_transform_ok by blast
    have "fold_body E X' ?y (Inr kind) (train_idx, test_idx) =
       Inr \<lparr>f_sc_X = sc_X, f_sc_y = sc_y, f_X_train = X_train, f_X_test = X_test',
          f_y_train = y_train, f_y_test = map ((!) ?y) test_idx, f_y_pred = y_pred',
          f_coef = fst (env_spearmanr E (squeeze (map ((!) ?y) test_idx)) (squeeze y_pred')),
          f_p = snd (env_spearmanr E (squeeze (map ((!) ?y) test_idx)) (squeeze y_pred')),
          f_corr = fst (env_pearsonr E (squeeze (map ((!) ?y) test_idx)) (squeeze y_pred'))\<rparr>"
      using assms(3,4) [folded X'(1)] leny [folded X'(1)] assms(6,7) fx [folded same]
        fy [folded ytr sc_y_def] tx [folded same] tt' ty [folded ytr] inv'
      by (rule fold_body_value)
    then show ?thesis
      by (simp add: assms(2) v_def)
  qed
  have sel: "f_sc_X v = sc_X" "f_sc_y v = sc_y" "f_X_train v = X_train" "f_X_test v = X_test"
    "f_y_train v = y_train" "f_y_pred v = y_pred"
    "f_y_test v = reshape_col (map ((!) y) test_idx)"
    "f_coef v = fst (env_spearmanr E (map ((!) y) test_idx) (squeeze y_pred))"
    "f_corr v = fst (env_pearsonr E (map ((!) y) test_idx) (squeeze y_pred))"
    by (simp_all add: v_def yte sq)
  have leak: "\<forall>X'. length X' = length X \<and> (\<forall>i \<in> set train_idx. X' ! i = X ! i) \<longrightarrow>
          (\<exists>v'. fold_body E X' (reshape_col y) chosen (train_idx, test_idx) = Inr v'
                \<and> f_sc_X v' = sc_X \<and> f_sc_y v' = sc_y \<and> f_X_train v' = f_X_train v)"
    using other by (intro allI impI) (elim conjE)
  show ?thesis
    apply (rule exI [of _ sc_X], rule exI [of _ sc_y], rule exI [of _ v])
    unfolding sel
    apply (intro conjI)
                 apply (rule fx)
                apply (rule fy [folded sc_y_def])
               apply (rule body)
              apply (rule refl)
             apply (rule refl)
            apply (rule tx)
           apply (rule tt)
          apply (rule ty)
         apply (rule inv)
        apply (rule rt)
       apply (rule refl)
      apply (rule refl)
     apply (rule refl)
    apply (rule leak [unfolded sel])
    done
qed

theorem fold_standardization_witness:
  "(live_regressor ''svr'' = live_regressor ''svr'' \<or> live_regressor ''svr'' = konvid_regressor ''svr'')
   \<and> live_regressor ''svr'' = Inr SVR
   \<and> (0::nat) < length [[1], [2], [3::real]] \<and> (1::nat) < length [[1], [2], [3::real]]
   \<and> (2::nat) < length [[1], [2], [3::real]]
   \<and> length [10, 20, 30::real] = length [[1], [2], [3::real]]
   \<and> [0, 1::nat] \<noteq> [] \<and> [2::nat] \<noteq> []
   \<and> (\<exists>sc_X sc_y v.
        scaler_fit (map ((!) [[1], [2], [3]]) [0, 1]) = Inr sc_X
      \<and> scaler_fit (reshape_col (map ((!) [10, 20, 30]) [0, 1])) = Inr sc_y
      \<and> fold_body \<lparr>env_rng = \<lambda>k n. [0..<n], env_garbage = \<lambda>_. 0, env_video_list = [],
                     env_fit = \<lambda>_ _ _ _. 0, env_spearmanr = \<lambda>_ _. (0, 0),
                     env_pearsonr = \<lambda>_ _. (0, 0)\<rparr>
           [[1], [2], [3]] (reshape_col [10, 20, 30]) (live_regressor ''svr'') ([0, 1], [2]) = Inr v
      \<and> f_sc_X v = sc_X \<and> f_sc_y v = sc_y
      \<and> scaler_transform sc_X (map ((!) [[1], [2], [3]]) [2]) = Inr (f_X_test v)
      \<and> scaler_inverse_transform sc_y (f_y_train v) = Inr (reshape_col (map ((!) [10, 20, 30]) [0, 1])))"
proof -
  have a: "live_regressor ''svr'' = live_regressor ''svr'' \<or> live_regressor ''svr'' = konvid_regressor ''svr''"
    by simp
  have b: "live_regressor ''svr'' = Inr SVR"
    by (simp add: live_regressor_def)
  have c: "\<forall>i \<in> set [0, 1]. i < length [[1], [2], [3::real]]"
    and d: "\<forall>i \<in> set [2]. i < length [[1], [2], [3::real]]"
    and e: "length [10, 20, 30::real] = length [[1], [2], [3::real]]"
    and f: "[0, 1::nat] \<noteq> []" and g: "[2::nat] \<noteq> []"
    by simp_all
  from fold_standardization [OF a b c d e f g,
      of "\<lparr>env_rng = \<lambda>k n. [0..<n], env_garbage = \<lambda>_. 0, env_video_list = [],
                     env_fit = \<lambda>_ _ _ _. 0, env_spearmanr = \<lambda>_ _. (0, 0),
                     env_pearsonr = \<lambda>_ _. (0, 0)\<rparr>"]
  obtain sc_X sc_y v where
      "scaler_fit (map ((!) [[1], [2], [3]]) [0, 1]) = Inr sc_X"
      "scaler_fit (reshape_col (map ((!) [10, 20, 30]) [0, 1])) = Inr sc_y"
      "fold_body \<lparr>env_rng = \<lambda>k n. [0..<n], env_garbage = \<lambda>_. 0, env_video_list = [],
                     env_fit = \<lambda>_ _ _ _. 0, env_spearmanr = \<lambda>_ _. (0, 0),
                     env_pearsonr = \<lambda>_ _. (0, 0)\<rparr>
           [[1], [2], [3]] (reshape_col [10, 20, 30]) (live_regressor ''svr'') ([0, 1], [2]) = Inr v"
      "f_sc_X v = sc_X" "f_sc_y v = sc_y"
      "scaler_transform sc_X (map ((!) [[1], [2], [3]]) [2]) = Inr (f_X_test v)"
      "scaler_inverse_transform sc_y (f_y_train v) = Inr (reshape_col (map ((!) [10, 20, 30]) [0, 1]))"
    by (elim exE conjE)
  then have "\<exists>sc_X sc_y v.
        scaler_fit (map ((!) [[1], [2], [3]]) [0, 1]) = Inr sc_X
      \<and> scaler_fit (reshape_col (map ((!) [10, 20, 30]) [0, 1])) = Inr sc_y
      \<and> fold_body \<lparr>env_rng = \<lambda>k n. [0..<n], env_garbage = \<lambda>_. 0, env_video_list = [],
                     env_fit = \<lambda>_ _ _ _. 0, env_spearmanr = \<lambda>_ _. (0, 0),
                     env_pearsonr = \<lambda>_ _. (0, 0)\<rparr>
           [[1], [2], [3]] (reshape_col [10, 20, 30]) (live_regressor ''svr'') ([0, 1], [2]) = Inr v
      \<and> f_sc_X v = sc_X \<and> f_sc_y v = sc_y
      \<and> scaler_transform sc_X (map ((!) [[1], [2], [3]]) [2]) = Inr (f_X_test v)
      \<and> scaler_inverse_transform sc_y (f_y_train v) = Inr (reshape_col (map ((!) [10, 20, 30]) [0, 1]))"
    by (intro exI conjI)
  with a b e f g show ?thesis
    by simp
qed

subsection \<open>The regressor named by the caller\<close>

lemmas str_defs = str_upper_def str_lower_def ascii_lowercase_def ascii_uppercase_def

text \<open>
  \<^verbatim>\<open>regression\<close> does not pass its \<^verbatim>\<open>regression_method\<close> on: whatever the caller names,
  the dataset function is run with \<^verbatim>\<open>'svr'\<close>, although that function would select the
  network for \<^verbatim>\<open>'nn'\<close>.
\<close>

lemma regression_ignores_method:
  "regression E X y regression_method dataset = regression E X y ''svr'' dataset
   \<and> regression E X y ''nn'' ''LIVE'' = live_dataset_regression E X y ''svr''
   \<and> regression E X y ''nn'' ''KONVID1K'' = konvid1k_dataset_regression E X y ''svr''
   \<and> live_regressor ''nn'' = Inr NN \<and> live_regressor ''svr'' = Inr SVR
   \<and> konvid_regressor ''nn'' = Inr NN \<and> konvid_regressor ''svr'' = Inr SVR"
  by (simp add: regression_def live_regressor_def konvid_regressor_def str_defs)

lemma one_fold:
  "fold_body \<lparr>env_rng = \<lambda>k n. [0..<n], env_garbage = \<lambda>_. 0, env_video_list = [],
       env_fit = \<lambda>kind _ _ _. (case kind of SVR \<Rightarrow> 0 | NN \<Rightarrow> 1),
       env_spearmanr = \<lambda>_ y_pred. (sum_list y_pred, 0), env_pearsonr = \<lambda>_ _. (0, 0)\<rparr>
     [[0], [0], [0], [0], [0]] (reshape_col [0, 0, 0, 0, 0]) (Inr kind) ([a, b, c, d], [e])
   = (if a < 5 \<and> b < 5 \<and> c < 5 \<and> d < 5 \<and> e < 5 then
        Inr \<lparr>f_sc_X = \<lparr>sc_mean = [0], sc_scale = [1]\<rparr>, f_sc_y = \<lparr>sc_mean = [0], sc_scale = [1]\<rparr>,
             f_X_train = [[0], [0], [0], [0]], f_X_test = [[0]],
             f_y_train = [[0], [0], [0], [0]], f_y_test = [[0]],
             f_y_pred = [[case kind of SVR \<Rightarrow> 0 | NN \<Rightarrow> 1]],
             f_coef = (case kind of SVR \<Rightarrow> 0 | NN \<Rightarrow> 1), f_p = 0, f_corr = 0\<rparr>
      else Inl IndexError)"
proof -
  have nth: "i < 5 \<Longrightarrow> [[0], [0], [0], [0], [0::real]] ! i = [0]" for i
    by (auto simp: less_Suc_eq numeral_eq_Suc nth_Cons')
  show ?thesis
    by (auto simp: fold_body_def bind_err_def take_rows_def scaler_fit_def scaler_transform_def
        scaler_inverse_transform_def check_array_def column_def np_mean_def np_var_def
        handle_zeros_in_scale_def reshape_col_def squeeze_def nth)
qed

lemma kfold_five:
  "kfold_split [0..<5] 5 5 =
     Inr [([1, 2, 3, 4], [0]), ([0, 2, 3, 4], [1]), ([0, 1, 3, 4], [2]),
          ([0, 1, 2, 4], [3]), ([0, 1, 2, 3], [4])]"
  by (simp add: kfold_split_def upt_conv_Cons)

lemma konvid_five:
  assumes "konvid_regressor m = Inr kind"
  shows "konvid1k_dataset_regression
     \<lparr>env_rng = \<lambda>k n. [0..<n], env_garbage = \<lambda>_. 0, env_video_list = [],
       env_fit = \<lambda>kind _ _ _. (case kind of SVR \<Rightarrow> 0 | NN \<Rightarrow> 1),
       env_spearmanr = \<lambda>_ y_pred. (sum_list y_pred, 0), env_pearsonr = \<lambda>_ _. (0, 0)\<rparr>
     [[0], [0], [0], [0], [0]] [0, 0, 0, 0, 0] m
   = Inr (replicate 50 (case kind of SVR \<Rightarrow> 0 | NN \<Rightarrow> 1), replicate 50 0, replicate 50 0)"
proof -
  let ?E = "\<lparr>env_rng = \<lambda>k n. [0..<n], env_garbage = \<lambda>_. 0, env_video_list = [],
       env_fit = \<lambda>kind _ _ _. (case kind of SVR \<Rightarrow> 0 | NN \<Rightarrow> (1::real)),
       env_spearmanr = \<lambda>_ y_pred. (sum_list y_pred, 0::real), env_pearsonr = \<lambda>_ _. (0::real, 0::real)\<rparr>"
  let ?V = "\<lparr>f_sc_X = \<lparr>sc_mean = [0], sc_scale = [1]\<rparr>, f_sc_y = \<lparr>sc_mean = [0], sc_scale = [1]\<rparr>,
             f_X_train = [[0], [0], [0], [0]], f_X_test = [[0]],
             f_y_train = [[0], [0], [0], [0]], f_y_test = [[0]],
             f_y_pred = [[case kind of SVR \<Rightarrow> 0 | NN \<Rightarrow> 1]],
             f_coef = (case kind of SVR \<Rightarrow> 0 | NN \<Rightarrow> 1), f_p = 0, f_corr = 0\<rparr>"
  have folds: "map_err (fold_body ?E [[0], [0], [0], [0], [0]] (reshape_col [0, 0, 0, 0, 0]) (Inr kind))
      [([1, 2, 3, 4], [0]), ([0, 2, 3, 4], [1]), ([0, 1, 3, 4], [2]),
          ([0, 1, 2, 4], [3]), ([0, 1, 2, 3], [4])] = Inr [?V, ?V, ?V, ?V, ?V]"
    by (simp add: one_fold)
  have rep: "bind_err (kfold_split (env_rng ?E r (length [[0], [0], [0], [0], [0::real]])) 5
              (length [[0], [0], [0], [0], [0::real]]))
          (map_err (fold_body ?E [[0], [0], [0], [0], [0]] (reshape_col [0, 0, 0, 0, 0])
             (konvid_regressor m))) = Inr ((\<lambda>_. [?V, ?V, ?V, ?V, ?V]) r)" for r :: nat
  proof -
    have len5: "length [[0], [0], [0], [0], [0::real]] = 5"
      by simp
    have draw: "env_rng ?E r 5 = [0..<5]"
      by simp
    show ?thesis
      unfolding len5 draw kfold_five assms bind_err_def sum.case folds ..
  qed
  have reps: "map_err (\<lambda>r. bind_err (kfold_split (env_rng ?E r (length [[0], [0], [0], [0], [0::real]])) 5
              (length [[0], [0], [0], [0], [0::real]]))
          (map_err (fold_body ?E [[0], [0], [0], [0], [0]] (reshape_col [0, 0, 0, 0, 0])
             (konvid_regressor m)))) [0..<10] = Inr (map (\<lambda>_. [?V, ?V, ?V, ?V, ?V]) [0..<10])"
    by (rule map_err_all_Inr) (rule rep)
  have cc: "concat (map (\<lambda>_. [?V, ?V, ?V, ?V, ?V]) [0..<10::nat]) = replicate 50 ?V"
    by (simp add: upt_conv_Cons numeral_eq_Suc)
  show ?thesis
    unfolding konvid1k_dataset_regression_def
    unfolding reps
    unfolding bind_err_def sum.case
    unfolding cc
    by simp
qed

text \<open>
  C6 fails on the code. \<^verbatim>\<open>regression(X, y, 'nn', 'KONVID1K')\<close> on five videos, with a
  support vector regressor that always predicts 0 and a network that always predicts 1,
  and the sum of the predictions reported as the rank correlation: the 50 folds report
  0, the prediction of the support vector regressor, where
  \<^verbatim>\<open>konvid1k_dataset_regression(X, y, 'nn')\<close> itself reports 1.
\<close>

theorem regression_nn_runs_svr:
  "regression
     \<lparr>env_rng = \<lambda>k n. [0..<n], env_garbage = \<lambda>_. 0, env_video_list = [],
       env_fit = \<lambda>kind _ _ _. (case kind of SVR \<Rightarrow> 0 | NN \<Rightarrow> 1),
       env_spearmanr = \<lambda>_ y_pred. (sum_list y_pred, 0), env_pearsonr = \<lambda>_ _. (0, 0)\<rparr>
     [[0], [0], [0], [0], [0]] [0, 0, 0, 0, 0] ''nn'' ''KONVID1K''
     = Inr (replicate 50 0, replicate 50 0, replicate 50 0)
   \<and> konvid1k_dataset_regression
     \<lparr>env_rng = \<lambda>k n. [0..<n], env_garbage = \<lambda>_. 0, env_video_list = [],
       env_fit = \<lambda>kind _ _ _. (case kind of SVR \<Rightarrow> 0 | NN \<Rightarrow> 1),
       env_spearmanr = \<lambda>_ y_pred. (sum_list y_pred, 0), env_pearsonr = \<lambda>_ _. (0, 0)\<rparr>
     [[0], [0], [0], [0], [0]] [0, 0, 0, 0, 0] ''nn''
     = Inr (replicate 50 1, replicate 50 0, replicate 50 0)"
proof -
  have svr: "konvid_regressor ''svr'' = Inr SVR" and nn: "konvid_regressor ''nn'' = Inr NN"
    by (simp_all add: konvid_regressor_def str_defs)
  have up: "str_upper ''KONVID1K'' = ''KONVID1K''"
    by (simp add: str_defs)
  show ?thesis
    unfolding regression_def up konvid_five [OF svr] konvid_five [OF nn] by simp
qed

end
